theory Spec2Isabelle
  imports Main "HOL-Library.Word" "HOL-Library.Sublist"
begin

section \<open>JavaScript values used by the terminal transport\<close>

text \<open>
  A JavaScript string is a sequence of UTF-16 code units; a \<open>Uint8Array\<close> is a sequence
  of bytes. ASCII literals of the source are written \<open>js ''...''\<close>.
\<close>

type_synonym jschar = "16 word"
type_synonym jsstring = "jschar list"
type_synonym bytes = "8 word list"

definition js :: "string \<Rightarrow> jsstring" where
  "js s = map (\<lambda>c. of_nat (of_char c)) s"

text \<open>\<open>String.prototype.includes\<close>: the pattern occurs as a contiguous substring.\<close>

definition js_includes :: "jsstring \<Rightarrow> jsstring \<Rightarrow> bool" where
  "js_includes s pat = sublist pat s"

text \<open>Character classes of the regular expressions in the source.\<close>

definition is_digit :: "jschar \<Rightarrow> bool" where
  \<comment> \<open>\<open>\d\<close>\<close>
  "is_digit c = (0x30 \<le> c \<and> c \<le> 0x39)"

definition is_ansi_param :: "jschar \<Rightarrow> bool" where
  \<comment> \<open>\<open>[0-9;]\<close>\<close>
  "is_ansi_param c = (is_digit c \<or> c = 0x3B)"

definition is_letter :: "jschar \<Rightarrow> bool" where
  \<comment> \<open>\<open>[a-zA-Z]\<close>\<close>
  "is_letter c = ((0x61 \<le> c \<and> c \<le> 0x7A) \<or> (0x41 \<le> c \<and> c \<le> 0x5A))"

definition is_alnum :: "jschar \<Rightarrow> bool" where
  \<comment> \<open>\<open>[A-Za-z0-9]\<close>, the characters of a marker id\<close>
  "is_alnum c = (is_letter c \<or> is_digit c)"

definition is_line_terminator :: "jschar \<Rightarrow> bool" where
  \<comment> \<open>the code units that \<open>.\<close> does not match\<close>
  "is_line_terminator c = (c = 0x0A \<or> c = 0x0D \<or> c = 0x2028 \<or> c = 0x2029)"

definition is_dot :: "jschar \<Rightarrow> bool" where
  \<comment> \<open>\<open>.\<close> (no \<open>s\<close> flag)\<close>
  "is_dot c = (\<not> is_line_terminator c)"

definition is_trim_space :: "jschar \<Rightarrow> bool" where
  \<comment> \<open>WhiteSpace and LineTerminator, the code units removed by \<open>String.prototype.trim\<close>\<close>
  "is_trim_space c =
     (c = 0x09 \<or> c = 0x0A \<or> c = 0x0B \<or> c = 0x0C \<or> c = 0x0D \<or> c = 0x20 \<or> c = 0xA0
      \<or> c = 0x1680 \<or> (0x2000 \<le> c \<and> c \<le> 0x200A) \<or> c = 0x2028 \<or> c = 0x2029
      \<or> c = 0x202F \<or> c = 0x205F \<or> c = 0x3000 \<or> c = 0xFEFF)"

definition trim :: "jsstring \<Rightarrow> jsstring" where
  "trim s = rev (dropWhile is_trim_space (rev (dropWhile is_trim_space s)))"

text \<open>
  \<open>parseInt(ds, 10)\<close> on a string of decimal digits (the only argument the source passes:
  capture group \<open>(\d+)\<close>). The value is exact below \<open>2^53\<close>; a JavaScript number rounds
  above that.
\<close>

definition parseInt10 :: "jsstring \<Rightarrow> int" where
  "parseInt10 ds = foldl (\<lambda>n c. 10 * n + (uint c - 0x30)) 0 ds"

text \<open>The decimal rendering of a natural number, as the shell prints \<open>$?\<close>.\<close>

fun decimal :: "nat \<Rightarrow> jsstring" where
  "decimal n = (if n < 10 then [0x30 + of_nat n]
                else decimal (n div 10) @ [0x30 + of_nat (n mod 10)])"

declare decimal.simps [simp del]

text \<open>\<open>String.prototype.split('\n')\<close> and \<open>Array.prototype.join('\n')\<close>.\<close>

fun split_nl :: "jsstring \<Rightarrow> jsstring list" where
  "split_nl [] = [[]]"
| "split_nl (c # cs) =
     (if c = 0x0A then [] # split_nl cs
      else (case split_nl cs of [] \<Rightarrow> [[c]] | l # ls \<Rightarrow> (c # l) # ls))"

fun join_nl :: "jsstring list \<Rightarrow> jsstring" where
  "join_nl [] = []"
| "join_nl [l] = l"
| "join_nl (l # ls) = l @ [0x0A] @ join_nl ls"

text \<open>\<open>Array.prototype.findIndex\<close>: \<open>None\<close> stands for \<open>-1\<close>.\<close>

fun findIndex :: "('a \<Rightarrow> bool) \<Rightarrow> 'a list \<Rightarrow> nat option" where
  "findIndex p [] = None"
| "findIndex p (x # xs) = (if p x then Some 0 else map_option Suc (findIndex p xs))"

text \<open>
  \<open>Uint8Array\<close> operations: \<open>new Uint8Array(n)\<close> is \<open>n\<close> zero bytes; an indexed store
  beyond the end is ignored; \<open>set(src, offset)\<close> throws a \<open>RangeError\<close> (\<open>None\<close>) when
  the source does not fit; \<open>subarray(a, b)\<close> is clamped to the array.
\<close>

definition new_Uint8Array :: "nat \<Rightarrow> bytes" where
  "new_Uint8Array n = replicate n 0"

definition array_store :: "bytes \<Rightarrow> nat \<Rightarrow> 8 word \<Rightarrow> bytes" where
  "array_store buf i v = (if i < length buf then buf[i := v] else buf)"

definition typed_array_set :: "bytes \<Rightarrow> bytes \<Rightarrow> nat \<Rightarrow> bytes option" where
  "typed_array_set buf src offset =
     (if offset + length src \<le> length buf
      then Some (take offset buf @ src @ drop (offset + length src) buf)
      else None)"

definition subarray :: "bytes \<Rightarrow> nat \<Rightarrow> nat \<Rightarrow> bytes" where
  "subarray buf a b = take (b - a) (drop a buf)"

section \<open>The command execution engine (ttyd-exec)\<close>

subsection \<open>Helper functions\<close>

definition END_MARKER_PREFIX :: jsstring where
  "END_MARKER_PREFIX = js ''___TTYD_EXEC_END___''"

text \<open>
  \<open>stripAnsiCodes\<close>: every match of \<open>/\x1b\[[0-9;]*[a-zA-Z]/g\<close> is removed.
  \<open>ansi_match s\<close> is the text after a match that starts at the head of \<open>s\<close>: the two
  character classes are disjoint, so the greedy \<open>[0-9;]*\<close> takes the whole run.
\<close>

definition ansi_match :: "jsstring \<Rightarrow> jsstring option" where
  "ansi_match s =
     (case s of
        e # b # rest \<Rightarrow>
          if e = 0x1B \<and> b = 0x5B then
            (case dropWhile is_ansi_param rest of
               l # tail \<Rightarrow> if is_letter l then Some tail else None
             | [] \<Rightarrow> None)
          else None
      | _ \<Rightarrow> None)"

function stripAnsiCodes :: "jsstring \<Rightarrow> jsstring" where
  "stripAnsiCodes [] = []"
| "stripAnsiCodes (c # cs) =
     (case ansi_match (c # cs) of
        Some tail \<Rightarrow> stripAnsiCodes tail
      | None \<Rightarrow> c # stripAnsiCodes cs)"
  by pat_completeness auto
termination
proof (relation "measure length", goal_cases)
  case 1
  show ?case by simp
next
  case (2 c cs)
  show ?case by simp
next
  case (3 c cs tail)
  then obtain b rest l where cs: "cs = b # rest" and d: "dropWhile is_ansi_param rest = l # tail"
    by (auto simp: ansi_match_def split: list.splits if_splits)
  have "length (l # tail) \<le> length rest"
    using length_dropWhile_le [of is_ansi_param rest] by (simp only: d)
  then show ?case by (simp add: cs)
qed

text \<open>
  \<open>wrapCommand\<close>: the command in a subshell, followed by an \<open>echo\<close> of the end marker
  with the shell's \<open>$?\<close>.
\<close>

definition wrapCommand :: "jsstring \<Rightarrow> jsstring \<Rightarrow> jsstring" where
  "wrapCommand command markerId =
     js ''('' @ command @ js ''); echo '' @ [0x22] @ END_MARKER_PREFIX @ markerId
       @ js '':$?___'' @ [0x22]"

text \<open>
  \<open>endMarkerPattern\<close> is \<open>___TTYD_EXEC_END___<markerId>:(\d+)___\<close>; the marker id is
  alphanumeric, so it stands for itself in the pattern. \<open>endMarkerPattern_at\<close> gives capture
  group 1 of a match that starts at the head of the text: after the digits the pattern needs
  an underscore, so the greedy \<open>\d+\<close> takes the whole run of digits.
  \<open>match_endMarker\<close> is \<open>outputBuffer.match(endMarkerPattern)\<close>: the leftmost match, as
  \<open>(match.index, match[1])\<close>.
\<close>

definition marker_stem :: "jsstring \<Rightarrow> jsstring" where
  "marker_stem markerId = END_MARKER_PREFIX @ markerId @ js '':''"

definition endMarkerPattern_at :: "jsstring \<Rightarrow> jsstring \<Rightarrow> jsstring option" where
  "endMarkerPattern_at markerId s =
     (if prefix (marker_stem markerId) s then
        (let r = drop (length (marker_stem markerId)) s; ds = takeWhile is_digit r
         in if ds \<noteq> [] \<and> prefix (js ''___'') (dropWhile is_digit r) then Some ds else None)
      else None)"

fun match_endMarker :: "jsstring \<Rightarrow> jsstring \<Rightarrow> (nat \<times> jsstring) option" where
  "match_endMarker markerId [] = map_option (Pair 0) (endMarkerPattern_at markerId [])"
| "match_endMarker markerId (c # cs) =
     (case endMarkerPattern_at markerId (c # cs) of
        Some ds \<Rightarrow> Some (0, ds)
      | None \<Rightarrow> map_option (\<lambda>(i, ds). (Suc i, ds)) (match_endMarker markerId cs))"

text \<open>
  Removing the echoed command: the first line (split at \<open>\n\<close>) that includes both the
  marker prefix and the marker id is spliced out.
\<close>

definition is_command_echo :: "jsstring \<Rightarrow> jsstring \<Rightarrow> bool" where
  "is_command_echo markerId line =
     (js_includes line END_MARKER_PREFIX \<and> js_includes line markerId)"

definition remove_command_echo :: "jsstring \<Rightarrow> jsstring \<Rightarrow> jsstring" where
  "remove_command_echo markerId cleanOutput =
     (let lines = split_nl cleanOutput
      in join_nl (case findIndex (is_command_echo markerId) lines of
                    None \<Rightarrow> lines
                  | Some i \<Rightarrow> take i lines @ drop (Suc i) lines))"

text \<open>
  Removing the marker echo: \<open>cleanOutput.replace(/.*<prefix><markerId>.*\n?/, '')\<close>
  replaces the leftmost match only. A match that starts at the head of \<open>s\<close> exists when the
  run of non-terminators at the head includes the prefix and id; both \<open>.*\<close> are greedy, so
  it covers that whole run and one following \<open>\n\<close>. \<open>marker_echo_at s\<close> is the text after
  such a match.
\<close>

definition marker_echo_at :: "jsstring \<Rightarrow> jsstring \<Rightarrow> jsstring option" where
  "marker_echo_at markerId s =
     (if js_includes (takeWhile is_dot s) (END_MARKER_PREFIX @ markerId) then
        (case dropWhile is_dot s of
           [] \<Rightarrow> Some []
         | c # r \<Rightarrow> if c = 0x0A then Some r else Some (c # r))
      else None)"

fun remove_marker_echo :: "jsstring \<Rightarrow> jsstring \<Rightarrow> jsstring" where
  "remove_marker_echo markerId [] =
     (case marker_echo_at markerId [] of Some r \<Rightarrow> r | None \<Rightarrow> [])"
| "remove_marker_echo markerId (c # cs) =
     (case marker_echo_at markerId (c # cs) of
        Some r \<Rightarrow> r
      | None \<Rightarrow> c # remove_marker_echo markerId cs)"


subsection \<open>Options, results and errors\<close>

text \<open>
  The platform functions the module calls: \<open>TextEncoder.encode\<close>,
  \<open>TextEncoder.encodeInto\<close> (the bytes written into a destination of the given capacity),
  \<open>TextDecoder.decode\<close> and \<open>JSON.stringify\<close> of an object given as its fields in order
  (a field whose value is \<open>undefined\<close> is left out by the platform).
\<close>

datatype json = JNumber int | JString jsstring | JUndefined

record platform =
  textEncode :: "jsstring \<Rightarrow> bytes"
  textEncodeInto :: "jsstring \<Rightarrow> nat \<Rightarrow> bytes"
  textDecode :: "bytes \<Rightarrow> jsstring"
  jsonStringify :: "(jsstring \<times> json) list \<Rightarrow> jsstring"

text \<open>
  \<open>TtydExecOptions\<close> after defaults, with the marker id drawn for the job
  (\<open>generateRandomString(8)\<close>, alphanumeric). The URL is taken as \<open>new URL(ttydUrl)\<close>
  parsed it.
\<close>

record parsed_url =
  protocol :: jsstring
  host :: jsstring
  pathname :: jsstring
  searchParams :: "(jsstring \<times> jsstring) list"

record TtydExecOptions =
  ttydUrl :: parsed_url
  accessToken :: jsstring
  command :: jsstring
  sessionId :: "jsstring option"
  authorization :: "jsstring option"
  cols :: int
  rows :: int
  stripAnsi :: bool
  markerId :: jsstring

text \<open>\<open>TtydExecResult\<close>; \<open>durationMs\<close> is wall-clock time and is not modelled.\<close>

record TtydExecResult =
  "output" :: jsstring
  exitCode :: int
  timedOut :: bool

datatype TtydExecErrorCode =
  CONNECTION_FAILED | AUTHENTICATION_FAILED | TIMEOUT | WEBSOCKET_ERROR | PROTOCOL_ERROR

record TtydExecError =
  message :: jsstring
  code :: TtydExecErrorCode

datatype settlement = Resolved TtydExecResult | Rejected TtydExecError

text \<open>Server and client command codes (\<open>'0'\<close>, \<open>'1'\<close>, \<open>'2'\<close>, \<open>'3'\<close>).\<close>

definition ServerCommand_OUTPUT :: jsstring where
  "ServerCommand_OUTPUT = js ''0''"

definition ClientCommand_INPUT :: jsstring where
  "ClientCommand_INPUT = js ''0''"

definition ClientCommand_RESIZE_TERMINAL :: jsstring where
  "ClientCommand_RESIZE_TERMINAL = js ''1''"

text \<open>\<open>s.charCodeAt(0)\<close> stored into a \<open>Uint8Array\<close> (the store truncates to a byte).\<close>

definition charCodeAt0 :: "jsstring \<Rightarrow> 8 word" where
  "charCodeAt0 s = (case s of [] \<Rightarrow> 0 | c # _ \<Rightarrow> ucast c)"

text \<open>\<open>String.fromCharCode(b)\<close> of one byte.\<close>

definition fromCharCode :: "8 word \<Rightarrow> jsstring" where
  "fromCharCode b = [ucast b]"

text \<open>
  \<open>buildWsUrl\<close>: the scheme, the path with one trailing slash removed and \<open>/ws\<close>
  appended, and the query parameters in the order they are appended. An empty string is
  falsy, so an empty session id or authorization adds no parameter.
\<close>

record ws_url =
  scheme :: jsstring
  ws_host :: jsstring
  ws_path :: jsstring
  query :: "(jsstring \<times> jsstring) list"

definition strip_trailing_slash :: "jsstring \<Rightarrow> jsstring" where
  \<comment> \<open>\<open>pathname.replace(/\/$/, '')\<close>\<close>
  "strip_trailing_slash p = (if p \<noteq> [] \<and> last p = 0x2F then butlast p else p)"

definition truthy :: "jsstring option \<Rightarrow> bool" where
  "truthy v = (case v of None \<Rightarrow> False | Some s \<Rightarrow> s \<noteq> [])"


subsection \<open>The job: state, events and handlers\<close>

datatype ready_state = CONNECTING | OPEN | CLOSING | CLOSED

text \<open>
  The variables of the promise executor (\<open>outputBuffer\<close>, \<open>isResolved\<close>,
  \<open>timeoutHandle\<close>, \<open>ws\<close>; the last two as "is not null"), the environment (whether
  \<open>createWebSocket\<close> is still pending, the socket object's ready state once it exists,
  whether the timeout timer is still armed, how many 100 ms command timers are armed), and
  what the job did (messages sent on the socket, calls of \<open>close\<close>, calls of
  \<open>resolve\<close> and \<open>reject\<close>, oldest first).
\<close>

record job =
  outputBuffer :: jsstring
  isResolved :: bool
  timeoutHandle :: bool
  ws :: bool
  creating :: bool
  socketState :: "ready_state option"
  timeoutArmed :: bool
  commandTimers :: nat
  sent :: "bytes list"
  closeCalls :: "(nat \<times> jsstring) list"
  settled :: "settlement list"

definition init_job :: job where
  \<comment> \<open>after the executor body ran: the timeout is set, \<open>createWebSocket()\<close> is pending\<close>
  "init_job =
     \<lparr>outputBuffer = [], isResolved = False, timeoutHandle = True, ws = False,
      creating = True, socketState = None, timeoutArmed = True, commandTimers = 0,
      sent = [], closeCalls = [], settled = []\<rparr>"

definition socket_close :: "ready_state option \<Rightarrow> ready_state option" where
  \<comment> \<open>\<open>close()\<close> starts the closing handshake of a socket that is not yet closed\<close>
  "socket_close r = (case r of Some CLOSED \<Rightarrow> Some CLOSED | Some _ \<Rightarrow> Some CLOSING | None \<Rightarrow> None)"

definition cleanup :: "job \<Rightarrow> job" where
  "cleanup s =
     (let s1 = (if timeoutHandle s then s\<lparr>timeoutArmed := False, timeoutHandle := False\<rparr> else s)
      in if ws s1
         then s1\<lparr>closeCalls := closeCalls s1 @ [(1000, js ''Command completed'')],
                 socketState := socket_close (socketState s1), ws := False\<rparr>
         else s1)"

definition resolveWith :: "job \<Rightarrow> TtydExecResult \<Rightarrow> job" where
  "resolveWith s result =
     (if isResolved s then s
      else (let s1 = cleanup (s\<lparr>isResolved := True\<rparr>)
            in s1\<lparr>settled := settled s1 @ [Resolved result]\<rparr>))"

definition rejectWith :: "job \<Rightarrow> TtydExecError \<Rightarrow> job" where
  "rejectWith s error =
     (if isResolved s then s
      else (let s1 = cleanup (s\<lparr>isResolved := True\<rparr>)
            in s1\<lparr>settled := settled s1 @ [Rejected error]\<rparr>))"

text \<open>The callback of the timeout timer.\<close>

definition onTimeout :: "TtydExecOptions \<Rightarrow> job \<Rightarrow> job" where
  "onTimeout opts s =
     resolveWith s
       \<lparr>output = (if stripAnsi opts then stripAnsiCodes (outputBuffer s) else outputBuffer s),
        exitCode = - 1, timedOut = True\<rparr>"

text \<open>\<open>ws.send\<close> on the job's socket.\<close>

definition ws_send :: "job \<Rightarrow> bytes \<Rightarrow> job" where
  "ws_send s data = s\<lparr>sent := sent s @ [data]\<rparr>"

definition initMsg :: "platform \<Rightarrow> TtydExecOptions \<Rightarrow> jsstring" where
  "initMsg P opts =
     jsonStringify P
       [(js ''columns'', JNumber (cols opts)), (js ''rows'', JNumber (rows opts)),
        (js ''AuthToken'', (case authorization opts of None \<Rightarrow> JUndefined | Some a \<Rightarrow> JString a))]"

definition onOpen :: "platform \<Rightarrow> TtydExecOptions \<Rightarrow> job \<Rightarrow> job" where
  "onOpen P opts s =
     (if \<not> ws s then s
      else (let s1 = ws_send s (textEncode P (initMsg P opts))
            in s1\<lparr>commandTimers := commandTimers s1 + 1\<rparr>))"

text \<open>
  A text frame, as the 100 ms callback and the interactive terminal build it: a buffer of
  \<open>3 * length + 1\<close> bytes, the code byte stored at index 0, the text encoded by
  \<open>encodeInto\<close> into the buffer behind it (the encoder never writes more than the
  destination holds), and the frame is the buffer up to the last byte written.
\<close>

definition textFrame :: "platform \<Rightarrow> jsstring \<Rightarrow> jsstring \<Rightarrow> bytes" where
  "textFrame P cmd text =
     (let payload = array_store (new_Uint8Array (length text * 3 + 1)) 0 (charCodeAt0 cmd);
          written = take (length payload - 1) (textEncodeInto P text (length payload - 1));
          filled = take 1 payload @ written @ drop (1 + length written) payload
      in subarray filled 0 (length written + 1))"

definition inputFrame :: "platform \<Rightarrow> jsstring \<Rightarrow> bytes" where
  "inputFrame P text = textFrame P ClientCommand_INPUT text"

definition enterPayload :: bytes where
  "enterPayload =
     array_store (array_store (new_Uint8Array 2) 0 (charCodeAt0 ClientCommand_INPUT)) 1 0x0D"

definition onCommandTimer :: "platform \<Rightarrow> TtydExecOptions \<Rightarrow> job \<Rightarrow> job" where
  "onCommandTimer P opts s =
     (if \<not> ws s \<or> socketState s \<noteq> Some OPEN then s
      else ws_send (ws_send s (inputFrame P (wrapCommand (command opts) (markerId opts))))
             enterPayload)"

text \<open>The result built when the end marker matched at \<open>idx\<close> with digits \<open>ds\<close>.\<close>

definition markerResult :: "TtydExecOptions \<Rightarrow> jsstring \<Rightarrow> nat \<Rightarrow> jsstring \<Rightarrow> TtydExecResult" where
  "markerResult opts buffer idx ds =
     (let cleanOutput = take idx buffer;
          cleanOutput = remove_command_echo (markerId opts) cleanOutput;
          cleanOutput = remove_marker_echo (markerId opts) cleanOutput
      in \<lparr>output = (if stripAnsi opts then trim (stripAnsiCodes cleanOutput) else trim cleanOutput),
          exitCode = parseInt10 ds, timedOut = False\<rparr>)"

text \<open>
  Decoding a frame: byte 0 is the command code, the rest is the payload. An empty message
  has no code and is skipped.
\<close>

definition decodeFrame :: "bytes \<Rightarrow> (jsstring \<times> bytes) option" where
  "decodeFrame rawData =
     (case rawData of [] \<Rightarrow> None | b # _ \<Rightarrow> Some (fromCharCode b, drop 1 rawData))"

definition onMessage :: "platform \<Rightarrow> TtydExecOptions \<Rightarrow> job \<Rightarrow> bytes \<Rightarrow> job" where
  "onMessage P opts s rawData =
     (case decodeFrame rawData of
        None \<Rightarrow> s
      | Some (cmd, payload) \<Rightarrow>
          if cmd = ServerCommand_OUTPUT then
            (let s1 = s\<lparr>outputBuffer := outputBuffer s @ textDecode P payload\<rparr>
             in case match_endMarker (markerId opts) (outputBuffer s1) of
                  Some (idx, ds) \<Rightarrow> resolveWith s1 (markerResult opts (outputBuffer s1) idx ds)
                | None \<Rightarrow> s1)
          else s)"

definition onError :: "job \<Rightarrow> jsstring \<Rightarrow> job" where
  "onError s msg =
     rejectWith s \<lparr>message = js ''WebSocket error: '' @ msg, code = WEBSOCKET_ERROR\<rparr>"

definition onClose :: "job \<Rightarrow> nat \<Rightarrow> jsstring \<Rightarrow> job" where
  "onClose s closeCode reason =
     (if isResolved s then s
      else if closeCode = 1008 \<or> js_includes reason (js ''auth'') then
        rejectWith s
          \<lparr>message = js ''Authentication failed: '' @ reason, code = AUTHENTICATION_FAILED\<rparr>
      else
        rejectWith s
          \<lparr>message = js ''Connection closed unexpectedly: code='' @ decimal closeCode
                        @ js '', reason='' @ reason,
           code = CONNECTION_FAILED\<rparr>)"

text \<open>
  What \<open>createWebSocket()\<close> can fail with: the typed error it throws itself when the
  \<open>ws\<close> package cannot be loaded, or any other error (given as its text).
\<close>

datatype create_failure = WsPackageMissing | OtherFailure jsstring

definition onCreateFailed :: "job \<Rightarrow> create_failure \<Rightarrow> job" where
  "onCreateFailed s f =
     rejectWith s
       (case f of
          WsPackageMissing \<Rightarrow>
            \<lparr>message = js ''Failed to load ws package. Install it with: pnpm add ws'',
             code = CONNECTION_FAILED\<rparr>
        | OtherFailure e \<Rightarrow>
            \<lparr>message = js ''Failed to create WebSocket connection: '' @ e,
             code = CONNECTION_FAILED\<rparr>)"

text \<open>
  The events of a job, and what each one runs. An event the environment cannot deliver
  (an open event on a socket that is not connecting, a timer that is not armed, a message
  on a socket that does not exist) leaves the job as it is. The listeners stay registered
  on the socket object after \<open>cleanup\<close> has set \<open>ws\<close> to null.
\<close>

datatype event =
    SocketCreated
  | CreateFailed create_failure
  | Open
  | CommandTimer
  | Message bytes
  | Error jsstring
  | Close nat jsstring
  | Timeout

definition step :: "platform \<Rightarrow> TtydExecOptions \<Rightarrow> job \<Rightarrow> event \<Rightarrow> job" where
  "step P opts s e =
     (case e of
        SocketCreated \<Rightarrow>
          if creating s then s\<lparr>creating := False, socketState := Some CONNECTING, ws := True\<rparr> else s
      | CreateFailed f \<Rightarrow>
          if creating s then onCreateFailed (s\<lparr>creating := False\<rparr>) f else s
      | Open \<Rightarrow>
          if socketState s = Some CONNECTING then onOpen P opts (s\<lparr>socketState := Some OPEN\<rparr>) else s
      | CommandTimer \<Rightarrow>
          if 0 < commandTimers s
          then onCommandTimer P opts (s\<lparr>commandTimers := commandTimers s - 1\<rparr>) else s
      | Message rawData \<Rightarrow>
          if socketState s = Some OPEN \<or> socketState s = Some CLOSING then onMessage P opts s rawData else s
      | Error msg \<Rightarrow>
          if socketState s \<noteq> None \<and> socketState s \<noteq> Some CLOSED then onError s msg else s
      | Close closeCode reason \<Rightarrow>
          if socketState s \<noteq> None \<and> socketState s \<noteq> Some CLOSED
          then onClose (s\<lparr>socketState := Some CLOSED\<rparr>) closeCode reason else s
      | Timeout \<Rightarrow>
          if timeoutArmed s then onTimeout opts (s\<lparr>timeoutArmed := False\<rparr>) else s)"

definition run :: "platform \<Rightarrow> TtydExecOptions \<Rightarrow> job \<Rightarrow> event list \<Rightarrow> job" where
  "run P opts s es = foldl (step P opts) s es"


text \<open>The error code a settlement carries, if it is a rejection.\<close>

definition settlement_code :: "settlement \<Rightarrow> TtydExecErrorCode option" where
  "settlement_code x = (case x of Resolved _ \<Rightarrow> None | Rejected e \<Rightarrow> Some (code e))"

text \<open>
  What the shell prints for \<open>echo "___TTYD_EXEC_END___<markerId>:$?___"\<close> when the
  command exited with status \<open>E\<close> (the line break that follows is not part of it), and
  the text an event adds to the output buffer: the decoded payload of an OUTPUT frame.
\<close>

definition marker_line :: "jsstring \<Rightarrow> nat \<Rightarrow> jsstring" where
  "marker_line mid E = END_MARKER_PREFIX @ mid @ js '':'' @ decimal E @ js ''___''"

definition received_text :: "platform \<Rightarrow> event \<Rightarrow> jsstring" where
  "received_text P e =
     (case e of
        Message rawData \<Rightarrow>
          (case decodeFrame rawData of
             None \<Rightarrow> []
           | Some (cmd, payload) \<Rightarrow> if cmd = ServerCommand_OUTPUT then textDecode P payload else [])
      | _ \<Rightarrow> [])"

text \<open>
  The events of an undisturbed session: the command timer fires and frames arrive; no
  transport error, no closure, no timeout.
\<close>

definition relay_event :: "event \<Rightarrow> bool" where
  "relay_event e = (case e of CommandTimer \<Rightarrow> True | Message _ \<Rightarrow> True | _ \<Rightarrow> False)"

subsection \<open>A platform instance for ASCII text\<close>

text \<open>
  On text made of ASCII characters, UTF-8 encoding and decoding map each code unit to
  the byte of the same value, and \<open>JSON.stringify\<close> of numbers and of strings that need no
  escape writes them as they are. This instance agrees with the platform on such text; it
  is what the examples below run on.
\<close>

definition ascii_json_value :: "json \<Rightarrow> jsstring option" where
  "ascii_json_value v =
     (case v of
        JNumber n \<Rightarrow> Some (if n < 0 then js ''-'' @ decimal (nat (- n)) else decimal (nat n))
      | JString t \<Rightarrow> Some ([0x22] @ t @ [0x22])
      | JUndefined \<Rightarrow> None)"

fun ascii_json_fields :: "(jsstring \<times> json) list \<Rightarrow> jsstring list" where
  "ascii_json_fields [] = []"
| "ascii_json_fields ((k, v) # fs) =
     (case ascii_json_value v of
        None \<Rightarrow> ascii_json_fields fs
      | Some t \<Rightarrow> ([0x22] @ k @ [0x22] @ js '':'' @ t) # ascii_json_fields fs)"

fun join_comma :: "jsstring list \<Rightarrow> jsstring" where
  "join_comma [] = []"
| "join_comma [l] = l"
| "join_comma (l # ls) = l @ js '','' @ join_comma ls"

definition ascii_platform :: platform where
  "ascii_platform =
     \<lparr>textEncode = map ucast,
      textEncodeInto = (\<lambda>text capacity. take capacity (map ucast text)),
      textDecode = map ucast,
      jsonStringify = (\<lambda>fs. js ''{'' @ join_comma (ascii_json_fields fs) @ js ''}'')\<rparr>"

definition bytes_of :: "string \<Rightarrow> bytes" where
  "bytes_of s = map (\<lambda>c. of_nat (of_char c)) s"

definition example_opts :: TtydExecOptions where
  "example_opts =
     \<lparr>ttydUrl = \<lparr>protocol = js ''https:'', host = js ''terminal.example.com'',
                  pathname = js ''/'', searchParams = []\<rparr>,
      accessToken = js ''token123'', command = js ''echo hi'', sessionId = None,
      authorization = Some (js ''dXNlcjpwdw==''), cols = 120, rows = 30, stripAnsi = True,
      markerId = js ''abcdefgh''\<rparr>"

text \<open>A session that has echoed part of the command and not yet printed a marker.\<close>

definition partial_trace :: "event list" where
  "partial_trace =
     [SocketCreated, Open, Message (bytes_of ''0$ ''), CommandTimer,
      Message (bytes_of ''0(sleep 60); ec''), Message (0x30 # 0x1B # bytes_of ''[0mho'')]"

text \<open>
  A session for \<open>echo hi\<close>: the prompt, the echoed command line, the output and the
  marker line, arriving in three frames that split the marker; the server then closes.
\<close>

definition echo_hi_output :: jsstring where
  "echo_hi_output =
     js ''$ (echo hi); echo '' @ [0x22] @ js ''___TTYD_EXEC_END___abcdefgh:$?___'' @ [0x22]
       @ [0x0D, 0x0A] @ js ''hi'' @ [0x0D, 0x0A]"

definition echo_hi_trace :: "event list" where
  "echo_hi_trace =
     [Message (bytes_of ''0$ ''), CommandTimer,
      Message (bytes_of ''0(echo hi); echo '' @ [0x22]
                 @ bytes_of ''___TTYD_EXEC_END___abcdefgh:$?___'' @ [0x22, 0x0D, 0x0A]
                 @ bytes_of ''hi'' @ [0x0D, 0x0A] @ bytes_of ''___TTYD_EXEC''),
      Message (bytes_of ''0_END___abcdefgh:0___'' @ [0x0D, 0x0A] @ bytes_of ''$ '')]"

text \<open>
  A session whose output ends with the marker stem and a digit, without the closing
  underscores; the marker line for exit code 0 follows in the next frame.
\<close>

definition collision_output :: jsstring where
  "collision_output = js ''___TTYD_EXEC_END___abcdefgh:7''"

definition collision_trace :: "event list" where
  "collision_trace =
     [Message (bytes_of ''0___TTYD_EXEC_END___abcdefgh:7''),
      Message (bytes_of ''0___TTYD_EXEC_END___abcdefgh:0___'' @ [0x0D, 0x0A])]"

text \<open>A frame with a marker of another job, and one with this job's marker.\<close>

definition foreign_marker_frame :: bytes where
  "foreign_marker_frame = bytes_of ''0___TTYD_EXEC_END___abcdefgx:0___''"

definition own_marker_frame :: bytes where
  "own_marker_frame = bytes_of ''0___TTYD_EXEC_END___abcdefgh:0___''"




section \<open>The interactive terminal (XtermTerminal)\<close>

subsection \<open>Frames\<close>

text \<open>
  \<open>sendData\<close> builds a binary frame in a buffer one byte longer than the data: the code
  byte is stored at index 0 and the data is copied behind it with \<open>set(data, 1)\<close>. The
  source writes \<open>ClientCommand.INPUT\<close> there; the construction is given for any code.
\<close>

definition binaryFrame :: "jsstring \<Rightarrow> bytes \<Rightarrow> bytes option" where
  "binaryFrame cmd d =
     typed_array_set (array_store (new_Uint8Array (length d + 1)) 0 (charCodeAt0 cmd)) d 1"

subsection \<open>State\<close>

text \<open>
  The model covers the effect of the component from the first \<open>connectWebSocket()\<close> on.
  The terminal object exists by then and the variable \<open>terminal\<close> is never reassigned, so
  the guards \<open>!terminal\<close> are false and are left out; of the terminal only its size is
  kept. Incoming frames are written to the terminal emulator and change nothing else;
  they are not modelled.

  A socket carries the URL it was opened with, the \<open>authorization\<close> value its handlers
  close over, its ready state, whether the component's handlers are still assigned, and
  what was handed to \<open>send\<close> and \<open>close\<close>. An exception that escapes a handler is
  recorded in \<open>uncaught\<close>.
\<close>

datatype js_error = InvalidStateError | RangeError

record web_socket =
  url :: ws_url
  authToken :: jsstring
  readyState :: ready_state
  listening :: bool
  frames :: "bytes list"
  closeRequests :: "(nat \<times> jsstring) list"

datatype notification = Connected | Disconnected

record xterm_props =
  wsUrl :: "parsed_url option"
  terminalSessionId :: jsstring

record xterm =
  termCols :: int
  termRows :: int
  isMounted :: bool
  socket :: "web_socket option"
  isAtBottom :: bool
  hasNewContent :: bool
  newLineCount :: nat
  reconnectTimeout :: "nat option"
  timers :: "(nat \<times> nat) list"
  nextTimer :: nat
  notifications :: "notification list"
  terminalWrites :: "jsstring list"
  uncaught :: "js_error list"

subsection \<open>Connecting\<close>

text \<open>
  \<open>parseUrl\<close>: \<open>None\<close> when the URL does not parse or carries no authorization
  (\<open>searchParams.get\<close> gives the first value of that name; \<open>|| ''\<close> turns a missing one
  into the empty string). The session id is appended as a further \<open>arg\<close> parameter.
\<close>

definition parseUrl :: "xterm_props \<Rightarrow> (ws_url \<times> jsstring) option" where
  "parseUrl props =
     (case wsUrl props of
        None \<Rightarrow> None
      | Some u \<Rightarrow>
          (let auth = (case map_of (searchParams u) (js ''authorization'') of
                         None \<Rightarrow> [] | Some v \<Rightarrow> v)
           in if auth = [] then None
              else Some (\<lparr>scheme = (if protocol u = js ''https:'' then js ''wss:'' else js ''ws:''),
                          ws_host = host u,
                          ws_path = strip_trailing_slash (pathname u) @ js ''/ws'',
                          query = searchParams u @ [(js ''arg'', terminalSessionId props)]\<rparr>,
                         auth)))"

definition notify :: "xterm \<Rightarrow> notification \<Rightarrow> xterm" where
  "notify s n = s\<lparr>notifications := notifications s @ [n]\<rparr>"

definition connectWebSocket :: "xterm_props \<Rightarrow> xterm \<Rightarrow> xterm" where
  "connectWebSocket props s =
     (if \<not> isMounted s then s
      else (case parseUrl props of
              None \<Rightarrow> notify s Disconnected
            | Some (u, auth) \<Rightarrow>
                s\<lparr>socket := Some \<lparr>url = u, authToken = auth, readyState = CONNECTING,
                                   listening = True, frames = [], closeRequests = []\<rparr>\<rparr>))"

text \<open>
  \<open>socket.send\<close>: a connecting socket throws \<open>InvalidStateError\<close>, an open one takes
  the message, a closing or closed one discards it.
\<close>

definition socket_send :: "xterm \<Rightarrow> bytes \<Rightarrow> xterm" where
  "socket_send s data =
     (case socket s of
        None \<Rightarrow> s
      | Some k \<Rightarrow>
          (case readyState k of
             CONNECTING \<Rightarrow> s\<lparr>uncaught := uncaught s @ [InvalidStateError]\<rparr>
           | OPEN \<Rightarrow> s\<lparr>socket := Some (k\<lparr>frames := frames k @ [data]\<rparr>)\<rparr>
           | _ \<Rightarrow> s))"

text \<open>The handshake message of \<open>socket.onopen\<close>.\<close>

definition handshake :: "platform \<Rightarrow> jsstring \<Rightarrow> int \<Rightarrow> int \<Rightarrow> bytes" where
  "handshake P auth c r =
     textEncode P (jsonStringify P
       [(js ''AuthToken'', JString auth), (js ''columns'', JNumber c), (js ''rows'', JNumber r)])"

definition onopen :: "platform \<Rightarrow> xterm \<Rightarrow> xterm" where
  "onopen P s =
     (if \<not> isMounted s then s
      else (let s1 = notify s Connected
            in case socket s1 of
                 None \<Rightarrow> s1
               | Some k \<Rightarrow> socket_send s1 (handshake P (authToken k) (termCols s1) (termRows s1))))"

subsection \<open>Sending\<close>

datatype send_data = TextData jsstring | BinaryData bytes

definition sendData :: "platform \<Rightarrow> xterm \<Rightarrow> send_data \<Rightarrow> xterm" where
  "sendData P s data =
     (if (case socket s of None \<Rightarrow> True | Some k \<Rightarrow> readyState k \<noteq> OPEN) then s
      else (case data of
              TextData text \<Rightarrow> socket_send s (textFrame P ClientCommand_INPUT text)
            | BinaryData d \<Rightarrow>
                (case binaryFrame ClientCommand_INPUT d of
                   None \<Rightarrow> s\<lparr>uncaught := uncaught s @ [RangeError]\<rparr>
                 | Some payload \<Rightarrow> socket_send s payload)))"

text \<open>
  \<open>terminal.onData\<close> and \<open>terminal.onBinary\<close>: scroll to the bottom, clear the new
  content indicator, send. \<open>onBinary\<close> turns each character into the byte of its code.
\<close>

definition before_send :: "xterm \<Rightarrow> xterm" where
  "before_send s =
     (let s1 = (if \<not> isAtBottom s then s\<lparr>isAtBottom := True\<rparr> else s)
      in if hasNewContent s1 then s1\<lparr>hasNewContent := False, newLineCount := 0\<rparr> else s1)"

definition onData :: "platform \<Rightarrow> xterm \<Rightarrow> jsstring \<Rightarrow> xterm" where
  "onData P s data = sendData P (before_send s) (TextData data)"

definition onBinary :: "platform \<Rightarrow> xterm \<Rightarrow> jsstring \<Rightarrow> xterm" where
  "onBinary P s data = sendData P (before_send s) (BinaryData (map ucast data))"

definition onResize :: "platform \<Rightarrow> xterm \<Rightarrow> int \<Rightarrow> int \<Rightarrow> xterm" where
  "onResize P s c r =
     (let s1 = s\<lparr>termCols := c, termRows := r\<rparr>
      in if (case socket s1 of None \<Rightarrow> False | Some k \<Rightarrow> readyState k = OPEN)
         then socket_send s1
                (textEncode P (ClientCommand_RESIZE_TERMINAL
                   @ jsonStringify P [(js ''columns'', JNumber c), (js ''rows'', JNumber r)]))
         else s1)"

subsection \<open>Closure, reconnection and unmounting\<close>

definition connectionLostLine :: jsstring where
  "connectionLostLine =
     [0x0D, 0x0A, 0x1B] @ js ''[33m[Connection lost. Reconnecting in 3s...]'' @ [0x1B]
       @ js ''[0m'' @ [0x0D, 0x0A]"

definition connectionClosedLine :: jsstring where
  "connectionClosedLine =
     [0x0D, 0x0A, 0x1B] @ js ''[31m[Connection closed]'' @ [0x1B] @ js ''[0m'' @ [0x0D, 0x0A]"

definition setTimeout :: "xterm \<Rightarrow> nat \<Rightarrow> xterm" where
  \<comment> \<open>arms a timer with a fresh handle and stores the handle in \<open>reconnectTimeout\<close>\<close>
  "setTimeout s delay =
     s\<lparr>reconnectTimeout := Some (nextTimer s), timers := timers s @ [(nextTimer s, delay)],
       nextTimer := nextTimer s + 1\<rparr>"

definition clearTimeout :: "(nat \<times> nat) list \<Rightarrow> nat \<Rightarrow> (nat \<times> nat) list" where
  "clearTimeout ts h = filter (\<lambda>t. fst t \<noteq> h) ts"

definition onclose :: "xterm \<Rightarrow> nat \<Rightarrow> jsstring \<Rightarrow> xterm" where
  "onclose s closeCode reason =
     (if \<not> isMounted s then s
      else (let s1 = notify (s\<lparr>socket := None\<rparr>) Disconnected
            in if closeCode \<noteq> 1000
               then setTimeout (s1\<lparr>terminalWrites := terminalWrites s1 @ [connectionLostLine]\<rparr>) 3000
               else s1\<lparr>terminalWrites := terminalWrites s1 @ [connectionClosedLine]\<rparr>))"

definition onReconnectTimer :: "xterm_props \<Rightarrow> xterm \<Rightarrow> xterm" where
  "onReconnectTimer props s = (if isMounted s then connectWebSocket props s else s)"

text \<open>The cleanup of the effect, as far as it touches the connection.\<close>

definition unmount :: "xterm \<Rightarrow> xterm" where
  "unmount s =
     (let s1 = s\<lparr>isMounted := False\<rparr>;
          s2 = (case reconnectTimeout s1 of
                  None \<Rightarrow> s1
                | Some h \<Rightarrow> s1\<lparr>timers := clearTimeout (timers s1) h\<rparr>)
      in case socket s2 of
           None \<Rightarrow> s2
         | Some k \<Rightarrow>
             (let k1 = k\<lparr>listening := False\<rparr>
              in if readyState k1 = OPEN \<or> readyState k1 = CONNECTING
                 then s2\<lparr>socket := Some (k1\<lparr>readyState := CLOSING,
                           closeRequests := closeRequests k1 @ [(1000, js ''Component unmounted'')]\<rparr>)\<rparr>
                 else s2\<lparr>socket := Some k1\<rparr>))"

subsection \<open>Events\<close>

text \<open>
  The socket opens or closes (its handler runs if it is still assigned), an armed timer
  fires, the terminal reports input or a new size, the component unmounts. An event the
  environment cannot deliver leaves the state as it is.
\<close>

datatype xevent =
    XOpen
  | XClose nat jsstring
  | XTimer nat
  | XData jsstring
  | XBinary jsstring
  | XResize int int
  | XUnmount

definition xstep :: "platform \<Rightarrow> xterm_props \<Rightarrow> xterm \<Rightarrow> xevent \<Rightarrow> xterm" where
  "xstep P props s e =
     (case e of
        XOpen \<Rightarrow>
          (case socket s of
             None \<Rightarrow> s
           | Some k \<Rightarrow>
               if readyState k = CONNECTING
               then (let s1 = s\<lparr>socket := Some (k\<lparr>readyState := OPEN\<rparr>)\<rparr>
                     in if listening k then onopen P s1 else s1)
               else s)
      | XClose closeCode reason \<Rightarrow>
          (case socket s of
             None \<Rightarrow> s
           | Some k \<Rightarrow>
               if readyState k \<noteq> CLOSED
               then (let s1 = s\<lparr>socket := Some (k\<lparr>readyState := CLOSED\<rparr>)\<rparr>
                     in if listening k then onclose s1 closeCode reason else s1)
               else s)
      | XTimer h \<Rightarrow>
          if h \<in> fst ` set (timers s)
          then onReconnectTimer props (s\<lparr>timers := clearTimeout (timers s) h\<rparr>) else s
      | XData data \<Rightarrow> onData P s data
      | XBinary data \<Rightarrow> onBinary P s data
      | XResize c r \<Rightarrow> onResize P s c r
      | XUnmount \<Rightarrow> if isMounted s then unmount s else s)"

definition xterm_init :: "xterm_props \<Rightarrow> int \<Rightarrow> int \<Rightarrow> xterm" where
  \<comment> \<open>the state after \<open>init\<close> has called \<open>connectWebSocket()\<close>, for a terminal of the given size\<close>
  "xterm_init props c r =
     connectWebSocket props
       \<lparr>termCols = c, termRows = r, isMounted = True, socket = None, isAtBottom = True,
        hasNewContent = False, newLineCount = 0, reconnectTimeout = None, timers = [],
        nextTimer = 1, notifications = [], terminalWrites = [], uncaught = []\<rparr>"

definition xrun :: "platform \<Rightarrow> xterm_props \<Rightarrow> xterm \<Rightarrow> xevent list \<Rightarrow> xterm" where
  "xrun P props s es = foldl (xstep P props) s es"

section \<open>The session lifecycle hook (useTerminal)\<close>

text \<open>
  The options after defaults, the React state (\<open>status\<close>, \<open>wsUrl\<close>), the two refs, and
  the timers armed through \<open>setTimeout\<close> and not yet fired or cleared, by handle. The
  state \<open>wsUrl\<close> is \<open>currentWsUrl\<close> here, and the option \<open>ttydUrl\<close> is \<open>ttydUrlOption\<close>,
  since the names are taken. The callbacks read the current state.
\<close>

datatype connection_status =
  Status_disconnected | Status_connecting | Status_connected | Status_error

record UseTerminalOptions =
  ttydUrlOption :: "jsstring option"
  autoReconnect :: bool
  reconnectDelay :: nat

record hook =
  status :: connection_status
  currentWsUrl :: "jsstring option"
  reconnectTimeoutRef :: "nat option"
  shouldReconnectRef :: bool
  pendingTimers :: "nat list"
  nextHandle :: nat

definition useTerminal_init :: "UseTerminalOptions \<Rightarrow> hook" where
  "useTerminal_init opts =
     \<lparr>status = (if truthy (ttydUrlOption opts) then Status_connecting else Status_disconnected),
      currentWsUrl = ttydUrlOption opts, reconnectTimeoutRef = None, shouldReconnectRef = True,
      pendingTimers = [], nextHandle = 1\<rparr>"

definition handleConnected :: "UseTerminalOptions \<Rightarrow> hook \<Rightarrow> hook" where
  "handleConnected opts h =
     h\<lparr>status := Status_connected, shouldReconnectRef := autoReconnect opts\<rparr>"

definition handleDisconnected :: "UseTerminalOptions \<Rightarrow> hook \<Rightarrow> hook" where
  "handleDisconnected opts h =
     (let h1 = h\<lparr>status := Status_disconnected\<rparr>
      in if shouldReconnectRef h1 \<and> truthy (currentWsUrl h1)
         then h1\<lparr>reconnectTimeoutRef := Some (nextHandle h1),
                 pendingTimers := pendingTimers h1 @ [nextHandle h1],
                 nextHandle := nextHandle h1 + 1\<rparr>
         else h1)"

definition clear_pending :: "hook \<Rightarrow> hook" where
  \<comment> \<open>\<open>if (reconnectTimeoutRef.current) { clearTimeout(...); reconnectTimeoutRef.current = null }\<close>\<close>
  "clear_pending h =
     (case reconnectTimeoutRef h of
        None \<Rightarrow> h
      | Some t \<Rightarrow> h\<lparr>pendingTimers := removeAll t (pendingTimers h), reconnectTimeoutRef := None\<rparr>)"

definition reconnect :: "UseTerminalOptions \<Rightarrow> hook \<Rightarrow> hook" where
  "reconnect opts h =
     (let h1 = clear_pending h;
          h2 = h1\<lparr>shouldReconnectRef := True, status := Status_connecting\<rparr>
      in if truthy (ttydUrlOption opts) then h2\<lparr>currentWsUrl := ttydUrlOption opts\<rparr> else h2)"

definition disconnect :: "hook \<Rightarrow> hook" where
  "disconnect h =
     (let h1 = clear_pending (h\<lparr>shouldReconnectRef := False\<rparr>)
      in h1\<lparr>status := Status_disconnected, currentWsUrl := None\<rparr>)"

text \<open>The callback of a reconnect timer.\<close>

definition onReconnectDue :: "hook \<Rightarrow> hook" where
  "onReconnectDue h =
     h\<lparr>status := Status_connecting,
       currentWsUrl := (if truthy (currentWsUrl h) then currentWsUrl h else None)\<rparr>"

datatype hook_event =
  HandleConnected | HandleDisconnected | Reconnect | Disconnect | TimerFired nat

definition hook_step :: "UseTerminalOptions \<Rightarrow> hook \<Rightarrow> hook_event \<Rightarrow> hook" where
  "hook_step opts h e =
     (case e of
        HandleConnected \<Rightarrow> handleConnected opts h
      | HandleDisconnected \<Rightarrow> handleDisconnected opts h
      | Reconnect \<Rightarrow> reconnect opts h
      | Disconnect \<Rightarrow> disconnect h
      | TimerFired t \<Rightarrow>
          if t \<in> set (pendingTimers h)
          then onReconnectDue (h\<lparr>pendingTimers := removeAll t (pendingTimers h)\<rparr>) else h)"

definition hook_run :: "UseTerminalOptions \<Rightarrow> hook \<Rightarrow> hook_event list \<Rightarrow> hook" where
  "hook_run opts h es = foldl (hook_step opts) h es"

text \<open>An instance: a terminal URL, automatic reconnection after ten seconds.\<close>

definition example_hook_options :: UseTerminalOptions where
  "example_hook_options =
     \<lparr>ttydUrlOption = Some (js ''https://terminal.example.com/?authorization=dXNlcjpwdw==''),
      autoReconnect = True, reconnectDelay = 10000\<rparr>"

text \<open>An instance of the terminal component's properties.\<close>

definition example_xterm_props :: xterm_props where
  "example_xterm_props =
     \<lparr>wsUrl = Some \<lparr>protocol = js ''https:'', host = js ''terminal.example.com'',
                     pathname = js ''/'',
                     searchParams = [(js ''authorization'', js ''dXNlcjpwdw=='')]\<rparr>,
      terminalSessionId = js ''s1''\<rparr>"

text \<open>The terminal while its socket is connecting, after it has opened, and after input.\<close>

definition connecting_terminal :: xterm where
  "connecting_terminal = xterm_init example_xterm_props 80 24"

definition open_terminal :: xterm where
  "open_terminal = xrun ascii_platform example_xterm_props connecting_terminal [XOpen]"


text \<open>The terminal after the component has unmounted with its socket open.\<close>

definition unmounted_terminal :: xterm where
  "unmounted_terminal = xrun ascii_platform example_xterm_props open_terminal [XUnmount]"

section \<open>Invariants\<close>

subsection \<open>The command execution engine\<close>

text \<open>
  While the promise is pending the timeout is armed, nothing was settled or closed, and
  the socket, if it exists, is connecting or open and held by \<open>ws\<close>. Once the promise is
  settled the timer is disarmed and exactly one settlement was made.
\<close>

definition job_inv :: "job \<Rightarrow> bool" where
  "job_inv s =
     (if isResolved s
      then \<not> timeoutArmed s \<and> \<not> timeoutHandle s \<and> length (settled s) = 1
      else timeoutArmed s \<and> timeoutHandle s \<and> settled s = [] \<and> closeCalls s = []
           \<and> socketState s \<noteq> Some CLOSED \<and> socketState s \<noteq> Some CLOSING
           \<and> (ws s = (socketState s \<noteq> None)))"

text \<open>A pending job whose socket is open and held by \<open>ws\<close>.\<close>

definition session_open :: "job \<Rightarrow> bool" where
  "session_open s = (\<not> isResolved s \<and> socketState s = Some OPEN \<and> ws s \<and> settled s = [])"


subsection \<open>The interactive terminal\<close>

text \<open>
  At most one reconnect timer is armed, and it is the one \<open>reconnectTimeout\<close> holds;
  none is armed while a socket with assigned handlers exists or after unmounting. A socket
  whose handlers were removed is closing or closed.
\<close>

definition conn_inv :: "xterm \<Rightarrow> bool" where
  "conn_inv s =
     ((timers s = []
       \<or> (reconnectTimeout s \<noteq> None \<and> timers s = [(the (reconnectTimeout s), 3000)]))
      \<and> (isMounted s \<or> timers s = [])
      \<and> (case socket s of
            None \<Rightarrow> True
          | Some k \<Rightarrow>
              if listening k then isMounted s \<and> timers s = []
              else readyState k = CLOSING \<or> readyState k = CLOSED))"



section \<open>Properties of the command execution engine\<close>

subsection \<open>An invariant of every job\<close>

lemmas handler_defs =
  step_def onTimeout_def onOpen_def onCommandTimer_def onMessage_def onError_def onClose_def
  onCreateFailed_def resolveWith_def rejectWith_def cleanup_def ws_send_def socket_close_def
  decodeFrame_def

lemma job_inv_init: "job_inv init_job"
  by (simp add: job_inv_def init_job_def)

lemma job_inv_step: "job_inv s \<Longrightarrow> job_inv (step P opts s e)"
  by (cases e)
    (auto simp: job_inv_def handler_defs Let_def split: if_splits option.splits)

lemma job_inv_run: "job_inv s \<Longrightarrow> job_inv (run P opts s es)"
  unfolding run_def by (induction es arbitrary: s) (simp_all add: job_inv_step)

subsection \<open>Timeout\<close>

text \<open>
  Claim C2. If the timeout fires while the promise is still pending (no end marker was
  found in the accumulated output, and the job was not rejected), the promise is resolved,
  not rejected: the one settlement is a result with \<open>timedOut = true\<close>,
  \<open>exitCode = -1\<close> and the output buffer as captured so far, with ANSI sequences
  stripped when \<open>stripAnsi\<close> is set. In such a state the timer is still armed, so the
  timeout can fire.
\<close>

theorem timeout_resolves_with_captured_output:
  assumes "s = run P opts init_job es" and "\<not> isResolved s"
  shows "timeoutArmed s \<and>
         settled (step P opts s Timeout) =
           [Resolved \<lparr>output = (if stripAnsi opts then stripAnsiCodes (outputBuffer s)
                                 else outputBuffer s),
                      exitCode = - 1, timedOut = True\<rparr>]"
proof -
  have "job_inv s"
    using assms(1) job_inv_run [OF job_inv_init] by simp
  with assms(2) have "timeoutArmed s" and "settled s = []"
    by (simp_all add: job_inv_def)
  with assms(2) show ?thesis
    by (simp add: step_def onTimeout_def resolveWith_def cleanup_def Let_def)
qed

theorem timeout_resolves_with_captured_output_witness:
  "\<not> isResolved (run ascii_platform example_opts init_job partial_trace) \<and>
   timeoutArmed (run ascii_platform example_opts init_job partial_trace) \<and>
   settled (step ascii_platform example_opts
              (run ascii_platform example_opts init_job partial_trace) Timeout) =
     [Resolved \<lparr>output = js ''$ (sleep 60); echo'', exitCode = - 1, timedOut = True\<rparr>]"
proof -
  have h: "\<not> isResolved (run ascii_platform example_opts init_job partial_trace)"
    by code_simp
  have b: "stripAnsiCodes (outputBuffer (run ascii_platform example_opts init_job partial_trace))
             = js ''$ (sleep 60); echo''"
    by code_simp
  have o: "stripAnsi example_opts"
    by (simp add: example_opts_def)
  show ?thesis
    using timeout_resolves_with_captured_output [OF refl h] h by (simp add: b o)
qed

subsection \<open>Premature closure and transport errors\<close>

text \<open>
  Claim C4. If the socket closes while the promise is still pending, the promise is
  rejected with a \<open>TtydExecError\<close> whose code is \<open>AUTHENTICATION_FAILED\<close> exactly when
  the close code is 1008 or the close reason includes \<open>auth\<close>, and \<open>CONNECTION_FAILED\<close>
  otherwise; an error event in such a state rejects with \<open>WEBSOCKET_ERROR\<close>.
\<close>

theorem premature_close_rejects_typed:
  assumes "s = run P opts init_job es" and "\<not> isResolved s" and "socketState s \<noteq> None"
  shows "map settlement_code (settled (step P opts s (Close closeCode reason))) =
           [Some (if closeCode = 1008 \<or> js_includes reason (js ''auth'')
                  then AUTHENTICATION_FAILED else CONNECTION_FAILED)]
         \<and> map settlement_code (settled (step P opts s (Error msg))) = [Some WEBSOCKET_ERROR]"
proof -
  have "job_inv s"
    using assms(1) job_inv_run [OF job_inv_init] by simp
  with assms(2) have "socketState s \<noteq> Some CLOSED" and "settled s = []"
    by (simp_all add: job_inv_def)
  with assms(2,3) show ?thesis
    by (simp add: step_def onClose_def onError_def rejectWith_def cleanup_def Let_def
        settlement_code_def)
qed

theorem premature_close_rejects_typed_witness:
  "\<not> isResolved (run ascii_platform example_opts init_job partial_trace) \<and>
   socketState (run ascii_platform example_opts init_job partial_trace) = Some OPEN \<and>
   map settlement_code (settled (step ascii_platform example_opts
      (run ascii_platform example_opts init_job partial_trace) (Close 1006 []))) =
     [Some CONNECTION_FAILED] \<and>
   map settlement_code (settled (step ascii_platform example_opts
      (run ascii_platform example_opts init_job partial_trace) (Close 1008 []))) =
     [Some AUTHENTICATION_FAILED] \<and>
   map settlement_code (settled (step ascii_platform example_opts
      (run ascii_platform example_opts init_job partial_trace)
      (Close 1000 (js ''unauthorized'')))) = [Some AUTHENTICATION_FAILED] \<and>
   map settlement_code (settled (step ascii_platform example_opts
      (run ascii_platform example_opts init_job partial_trace) (Error (js ''reset'')))) =
     [Some WEBSOCKET_ERROR]"
proof -
  have h: "\<not> isResolved (run ascii_platform example_opts init_job partial_trace)"
    by code_simp
  have k: "socketState (run ascii_platform example_opts init_job partial_trace) = Some OPEN"
    by code_simp
  then have k': "socketState (run ascii_platform example_opts init_job partial_trace) \<noteq> None"
    by simp
  have i1: "\<not> js_includes [] (js ''auth'')" by code_simp
  have i2: "js_includes (js ''unauthorized'') (js ''auth'')" by code_simp
  show ?thesis
    using premature_close_rejects_typed [OF refl h k', of 1006 "[]" "js ''reset''"]
      premature_close_rejects_typed [OF refl h k', of 1008 "[]" "js ''reset''"]
      premature_close_rejects_typed [OF refl h k', of 1000 "js ''unauthorized''" "js ''reset''"]
      h k i1 i2
    by simp
qed

subsection \<open>The marker scan\<close>

lemma js_underscores: "js ''___'' = [0x5F, 0x5F, 0x5F]"
  by (simp add: js_def)

lemma js_colon: "js '':'' = [0x3A]"
  by (simp add: js_def)

lemma not_digit_underscore: "\<not> is_digit 0x5F"
  by (simp add: is_digit_def)

lemma not_digit_colon: "\<not> is_digit 0x3A"
  by (simp add: is_digit_def)

lemma takeWhile_digits_run:
  "list_all is_digit ds \<Longrightarrow> takeWhile is_digit (ds @ js ''___'' @ r) = ds"
  by (simp add: takeWhile_append2 list_all_iff js_underscores not_digit_underscore)

lemma dropWhile_digits_run:
  "list_all is_digit ds \<Longrightarrow> dropWhile is_digit (ds @ js ''___'' @ r) = js ''___'' @ r"
  by (simp add: dropWhile_append2 list_all_iff js_underscores not_digit_underscore)

lemma endMarkerPattern_at_iff:
  "endMarkerPattern_at m s = Some ds \<longleftrightarrow>
     ds \<noteq> [] \<and> list_all is_digit ds \<and> (\<exists>r. s = marker_stem m @ ds @ js ''___'' @ r)"
proof
  assume a: "endMarkerPattern_at m s = Some ds"
  then have p: "prefix (marker_stem m) s"
    by (simp add: endMarkerPattern_at_def split: if_splits)
  then obtain r0 where s: "s = marker_stem m @ r0"
    by (auto simp: prefix_def)
  from a s have ds: "ds = takeWhile is_digit r0" and ne: "ds \<noteq> []"
    and q: "prefix (js ''___'') (dropWhile is_digit r0)"
    by (auto simp: endMarkerPattern_at_def Let_def split: if_splits)
  from q obtain r where "dropWhile is_digit r0 = js ''___'' @ r"
    by (auto simp: prefix_def)
  then have "r0 = ds @ js ''___'' @ r"
    using ds takeWhile_dropWhile_id [of is_digit r0] by simp
  moreover have "list_all is_digit ds"
    using ds by (simp add: list_all_iff) (meson set_takeWhileD)
  ultimately show "ds \<noteq> [] \<and> list_all is_digit ds \<and> (\<exists>r. s = marker_stem m @ ds @ js ''___'' @ r)"
    using ne s by auto
next
  assume "ds \<noteq> [] \<and> list_all is_digit ds \<and> (\<exists>r. s = marker_stem m @ ds @ js ''___'' @ r)"
  then obtain r where ne: "ds \<noteq> []" and d: "list_all is_digit ds"
    and s: "s = marker_stem m @ ds @ js ''___'' @ r"
    by blast
  show "endMarkerPattern_at m s = Some ds"
    using ne by (simp add: endMarkerPattern_at_def s takeWhile_digits_run [OF d]
        dropWhile_digits_run [OF d])
qed

lemma match_endMarker_Some_iff:
  "match_endMarker m s = Some (i, ds) \<longleftrightarrow>
     i \<le> length s \<and> endMarkerPattern_at m (drop i s) = Some ds
     \<and> (\<forall>j<i. endMarkerPattern_at m (drop j s) = None)"
proof (induction s arbitrary: i)
  case Nil
  then show ?case by auto
next
  case (Cons c cs)
  show ?case
  proof (cases "endMarkerPattern_at m (c # cs)")
    case (Some d)
    have "(\<forall>j<i. endMarkerPattern_at m (drop j (c # cs)) = None) \<longleftrightarrow> i = 0"
      using Some by (cases i) auto
    then show ?thesis using Some by auto
  next
    case None
    show ?thesis
    proof (cases i)
      case 0
      then show ?thesis using None by simp
    next
      case (Suc k)
      have "(\<forall>j<Suc k. endMarkerPattern_at m (drop j (c # cs)) = None)
              \<longleftrightarrow> (\<forall>j<k. endMarkerPattern_at m (drop j cs) = None)"
        using None by (auto simp: less_Suc_eq_0_disj)
      then show ?thesis
        using None Suc Cons.IH [of k] by auto
    qed
  qed
qed

lemma all_le_Suc_split: "(\<forall>j\<le>Suc n. P j) \<longleftrightarrow> P 0 \<and> (\<forall>j\<le>n. P (Suc j))"
proof
  assume "\<forall>j\<le>Suc n. P j"
  then show "P 0 \<and> (\<forall>j\<le>n. P (Suc j))" by simp
next
  assume a: "P 0 \<and> (\<forall>j\<le>n. P (Suc j))"
  show "\<forall>j\<le>Suc n. P j"
  proof (intro allI impI)
    fix j assume "j \<le> Suc n"
    then show "P j" using a by (cases j) auto
  qed
qed

lemma match_endMarker_None_iff:
  "match_endMarker m s = None \<longleftrightarrow> (\<forall>j\<le>length s. endMarkerPattern_at m (drop j s) = None)"
proof (induction s)
  case Nil
  then show ?case by simp
next
  case (Cons c cs)
  show ?case
    using Cons.IH
    by (simp add: all_le_Suc_split [of "length cs"] split: option.splits)
qed

lemma uint_ucast_byte: "uint (ucast (b :: 8 word) :: 16 word) = uint b"
  by (simp add: uint_up_ucast is_up)

lemma ucast_byte_eq_0x30: "(ucast (b :: 8 word) :: 16 word) = 0x30 \<longleftrightarrow> b = 0x30"
proof -
  have "(ucast b :: 16 word) = 0x30 \<longleftrightarrow> uint (ucast b :: 16 word) = uint (0x30 :: 16 word)"
    by (simp only: word_uint_eq_iff)
  also have "\<dots> \<longleftrightarrow> uint b = uint (0x30 :: 8 word)"
    by (simp add: uint_ucast_byte)
  also have "\<dots> \<longleftrightarrow> b = 0x30"
    by (simp only: word_uint_eq_iff)
  finally show ?thesis .
qed

lemma match_endMarker_occurs_iff:
  "match_endMarker m s \<noteq> None \<longleftrightarrow>
     (\<exists>pre ds post. ds \<noteq> [] \<and> list_all is_digit ds
        \<and> s = pre @ marker_stem m @ ds @ js ''___'' @ post)"
proof
  assume "match_endMarker m s \<noteq> None"
  then obtain i ds where "match_endMarker m s = Some (i, ds)"
    by auto
  then have "endMarkerPattern_at m (drop i s) = Some ds"
    by (simp add: match_endMarker_Some_iff)
  then obtain r where "ds \<noteq> []" "list_all is_digit ds"
    "drop i s = marker_stem m @ ds @ js ''___'' @ r"
    by (auto simp: endMarkerPattern_at_iff)
  then have "ds \<noteq> [] \<and> list_all is_digit ds \<and> s = take i s @ marker_stem m @ ds @ js ''___'' @ r"
    by (metis append_take_drop_id)
  then show "\<exists>pre ds post. ds \<noteq> [] \<and> list_all is_digit ds
        \<and> s = pre @ marker_stem m @ ds @ js ''___'' @ post"
    by blast
next
  assume "\<exists>pre ds post. ds \<noteq> [] \<and> list_all is_digit ds
        \<and> s = pre @ marker_stem m @ ds @ js ''___'' @ post"
  then obtain pre ds post where ds: "ds \<noteq> []" "list_all is_digit ds"
    and s: "s = pre @ marker_stem m @ ds @ js ''___'' @ post"
    by blast
  have "endMarkerPattern_at m (drop (length pre) s) = Some ds"
    using ds by (auto simp: s endMarkerPattern_at_iff)
  moreover have "length pre \<le> length s"
    by (simp add: s)
  ultimately show "match_endMarker m s \<noteq> None"
    by (auto simp: match_endMarker_None_iff)
qed

lemma is_OUTPUT_iff: "fromCharCode b = ServerCommand_OUTPUT \<longleftrightarrow> b = 0x30"
  using ucast_byte_eq_0x30 [of b]
  by (simp add: fromCharCode_def ServerCommand_OUTPUT_def js_def)

lemma decodeFrame_Nil: "decodeFrame [] = None"
  by (simp add: decodeFrame_def)

lemma decodeFrame_Cons: "decodeFrame (b # payload) = Some (fromCharCode b, payload)"
  by (simp add: decodeFrame_def)

lemma onMessage_resolves_iff:
  assumes "\<not> isResolved s"
  shows "isResolved (onMessage P opts s raw) \<longleftrightarrow>
         (\<exists>payload. raw = 0x30 # payload
            \<and> match_endMarker (markerId opts) (outputBuffer s @ textDecode P payload) \<noteq> None)"
proof (cases raw)
  case Nil
  then show ?thesis using assms by (simp add: onMessage_def decodeFrame_Nil)
next
  case (Cons b payload)
  show ?thesis
    using assms Cons
    by (auto simp: onMessage_def decodeFrame_Cons is_OUTPUT_iff Let_def resolveWith_def
        cleanup_def split: option.splits)
qed

subsection \<open>Decimal exit codes and the marker line\<close>

lemma below_ten:
  "d < 10 \<Longrightarrow> d = 0 \<or> d = 1 \<or> d = 2 \<or> d = 3 \<or> d = 4 \<or> d = 5 \<or> d = 6 \<or> d = 7 \<or> d = 8 \<or> d = (9::nat)"
  by arith

lemma digit_char_value: "d < 10 \<Longrightarrow> uint (0x30 + of_nat d :: 16 word) = 0x30 + int d"
  by (drule below_ten) (elim disjE; simp)

lemma digit_char_is_digit: "d < 10 \<Longrightarrow> is_digit (0x30 + of_nat d)"
  by (drule below_ten) (elim disjE; simp add: is_digit_def)

lemma decimal_nonempty: "decimal n \<noteq> []"
  by (subst decimal.simps) simp

lemma decimal_digits: "list_all is_digit (decimal n)"
proof (induction n rule: decimal.induct)
  case (1 n)
  show ?case
  proof (cases "n < 10")
    case True
    then show ?thesis by (subst decimal.simps) (simp add: digit_char_is_digit)
  next
    case False
    then show ?thesis
      using 1 by (subst decimal.simps) (simp add: digit_char_is_digit)
  qed
qed

lemma parseInt10_snoc: "parseInt10 (ds @ [c]) = 10 * parseInt10 ds + (uint c - 0x30)"
  by (simp add: parseInt10_def)

lemma parseInt10_decimal: "parseInt10 (decimal n) = int n"
proof (induction n rule: decimal.induct)
  case (1 n)
  show ?case
  proof (cases "n < 10")
    case True
    then show ?thesis
      by (subst decimal.simps) (simp add: parseInt10_def digit_char_value)
  next
    case False
    then have "parseInt10 (decimal n) = 10 * int (n div 10) + int (n mod 10)"
      using 1 by (subst decimal.simps) (simp add: parseInt10_snoc digit_char_value)
    moreover have "10 * int (n div 10) + int (n mod 10) = int (10 * (n div 10) + n mod 10)"
      by (simp only: of_nat_add of_nat_mult of_nat_numeral)
    ultimately show ?thesis by (simp only: mult_div_mod_eq)
  qed
qed

text \<open>The colon that ends the stem is neither a digit nor an underscore.\<close>

lemma marker_stem_last: "marker_stem m ! (length (marker_stem m) - 1) = 0x3A"
  by (simp add: marker_stem_def js_colon nth_append)

lemma marker_stem_nonempty: "0 < length (marker_stem m)"
  by (simp add: marker_stem_def js_colon)

lemma tail_no_colon:
  assumes "list_all is_digit ds" and "i < length (ds @ js ''___'')"
  shows "(ds @ js ''___'') ! i \<noteq> 0x3A"
proof (cases "i < length ds")
  case True
  then have "is_digit (ds ! i)"
    using assms(1) by (simp add: list_all_length)
  then show ?thesis
    using True not_digit_colon by (auto simp: nth_append)
next
  case False
  then have "i - length ds < 3"
    using assms(2) by (simp add: js_underscores)
  then have "js ''___'' ! (i - length ds) = 0x5F"
    by (auto simp: js_underscores nth_Cons' )
  then show ?thesis
    using False by (simp add: nth_append)
qed


text \<open>
  The marker line \<open>M\<close> has no match of the pattern but at its head, and no proper prefix of
  it has one: the colon of a match would have to sit among the digits and underscores.
\<close>

lemma marker_line_split: "marker_line m E = marker_stem m @ decimal E @ js ''___''"
  by (simp add: marker_line_def marker_stem_def)

lemma length_underscores: "length (js ''___'') = 3"
  by (simp add: js_def)

lemma endMarkerPattern_at_take:
  assumes "endMarkerPattern_at m (take n s) = Some ds"
  shows "endMarkerPattern_at m s = Some ds"
proof -
  from assms obtain r where ds: "ds \<noteq> []" "list_all is_digit ds"
    and t: "take n s = marker_stem m @ ds @ js ''___'' @ r"
    by (auto simp: endMarkerPattern_at_iff)
  have "s = marker_stem m @ ds @ js ''___'' @ (r @ drop n s)"
    using t append_take_drop_id [of n s] by simp
  with ds show ?thesis
    unfolding endMarkerPattern_at_iff by blast
qed

lemma endMarkerPattern_at_within:
  assumes "endMarkerPattern_at m (X @ Y) = Some ds"
    and "length (marker_stem m) + length ds + 3 \<le> length X"
  shows "endMarkerPattern_at m X = Some ds"
proof -
  from assms(1) obtain r where ds: "ds \<noteq> []" "list_all is_digit ds"
    and t: "X @ Y = marker_stem m @ ds @ js ''___'' @ r"
    by (auto simp: endMarkerPattern_at_iff)
  have "X = take (length X) (marker_stem m @ ds @ js ''___'' @ r)"
    using t by (metis append_eq_conv_conj)
  also have "\<dots> = marker_stem m @ ds @ js ''___''
                    @ take (length X - (length (marker_stem m) + length ds + 3)) r"
    using assms(2) by (simp add: length_underscores)
  finally show ?thesis
    using ds unfolding endMarkerPattern_at_iff by blast
qed

lemma match_colon_index:
  assumes "endMarkerPattern_at m X = Some ds"
  shows "length (marker_stem m) - 1 < length X" and "X ! (length (marker_stem m) - 1) = 0x3A"
proof -
  from assms obtain r where t: "X = marker_stem m @ ds @ js ''___'' @ r"
    by (auto simp: endMarkerPattern_at_iff)
  show "length (marker_stem m) - 1 < length X"
    unfolding t length_append using marker_stem_nonempty [of m] by linarith
  show "X ! (length (marker_stem m) - 1) = 0x3A"
    using marker_stem_nonempty [of m] marker_stem_last [of m] by (simp add: t nth_append)
qed

lemma match_digit_index:
  assumes "endMarkerPattern_at m X = Some ds" and "i < length ds"
  shows "is_digit (X ! (length (marker_stem m) + i))"
proof -
  from assms obtain r where d: "list_all is_digit ds"
    and t: "X = marker_stem m @ ds @ js ''___'' @ r"
    by (auto simp: endMarkerPattern_at_iff)
  show ?thesis
    using d assms(2) by (simp add: t nth_append list_all_length)
qed

lemma match_length:
  assumes "endMarkerPattern_at m X = Some ds"
  shows "length (marker_stem m) + length ds + 3 \<le> length X"
  using assms by (auto simp: endMarkerPattern_at_iff js_underscores)

text \<open>No match of the pattern starts at a positive offset inside a marker line.\<close>

lemma no_match_inside_marker_line:
  assumes "1 \<le> k"
  shows "endMarkerPattern_at m (drop k (marker_line m E)) = None"
proof (rule ccontr)
  let ?S = "marker_stem m"
  assume "endMarkerPattern_at m (drop k (marker_line m E)) \<noteq> None"
  then obtain ds where a: "endMarkerPattern_at m (drop k (marker_line m E)) = Some ds"
    by auto
  from match_colon_index [OF a]
  have lt: "k + (length ?S - 1) < length (marker_line m E)"
    and c: "marker_line m E ! (k + (length ?S - 1)) = 0x3A"
    by simp_all
  have "k + (length ?S - 1) = length ?S + (k - 1)"
    using assms marker_stem_nonempty [of m] by linarith
  then have "marker_line m E ! (k + (length ?S - 1)) = (decimal E @ js ''___'') ! (k - 1)"
    and "k - 1 < length (decimal E @ js ''___'')"
    using lt by (simp_all add: marker_line_split nth_append)
  then show False
    using c tail_no_colon [OF decimal_digits, of "k - 1" E] by simp
qed

text \<open>The marker line itself matches at its head, with the digits of the exit code.\<close>

lemma marker_line_matches: "endMarkerPattern_at m (marker_line m E @ r) = Some (decimal E)"
  unfolding endMarkerPattern_at_iff
  using decimal_nonempty decimal_digits by (auto simp: marker_line_split)

lemma proper_prefix_of_marker_line_no_match:
  assumes "n < length (marker_line m E)"
  shows "endMarkerPattern_at m (take n (marker_line m E)) = None"
proof (rule ccontr)
  assume "endMarkerPattern_at m (take n (marker_line m E)) \<noteq> None"
  then obtain ds where a: "endMarkerPattern_at m (take n (marker_line m E)) = Some ds"
    by auto
  have "endMarkerPattern_at m (marker_line m E) = Some ds"
    by (rule endMarkerPattern_at_take [OF a])
  moreover have "endMarkerPattern_at m (marker_line m E) = Some (decimal E)"
    using marker_line_matches [of m E "[]"] by simp
  ultimately have "ds = decimal E" by simp
  then have "length (marker_line m E) \<le> length (take n (marker_line m E))"
    using match_length [OF a] by (simp add: marker_line_split js_underscores)
  then show False using assms by simp
qed

lemma marker_line_colon:
  "marker_line m E ! (length (marker_stem m) - 1) = 0x3A"
  using marker_stem_nonempty [of m] marker_stem_last [of m]
  by (simp add: marker_line_split nth_append)

lemma length_marker_line:
  "length (marker_line m E) = length (marker_stem m) + length (decimal E) + 3"
  by (simp add: marker_line_split length_underscores)

lemma stream_prefix_no_match:
  assumes H: "match_endMarker m (out @ marker_line m E) = Some (length out, decimal E)"
    and n: "n < length out + length (marker_line m E)"
  shows "match_endMarker m (take n (out @ marker_line m E @ rest)) = None"
proof -
  let ?M = "marker_line m E"
  have P: "take n (out @ ?M @ rest) = take n (out @ ?M)"
    using n by simp
  have "endMarkerPattern_at m (drop j (take n (out @ ?M))) = None" for j
  proof (rule ccontr)
    assume "endMarkerPattern_at m (drop j (take n (out @ ?M))) \<noteq> None"
    then obtain ds where a: "endMarkerPattern_at m (drop j (take n (out @ ?M))) = Some ds"
      by auto
    then have a': "endMarkerPattern_at m (take (n - j) (drop j (out @ ?M))) = Some ds"
      by (simp only: drop_take)
    have b: "endMarkerPattern_at m (drop j (out @ ?M)) = Some ds"
      by (rule endMarkerPattern_at_take [OF a'])
    have "\<not> j < length out"
      using H b by (auto simp: match_endMarker_Some_iff)
    then have j: "length out \<le> j" by simp
    show False
    proof (cases "j = length out")
      case True
      then have "endMarkerPattern_at m (take (n - length out) ?M) = Some ds"
        using a' by simp
      moreover have "n - length out < length ?M"
        using n length_marker_line [of m E] by linarith
      ultimately show False
        using proper_prefix_of_marker_line_no_match [of "n - length out" m E] by simp
    next
      case False
      then have "1 \<le> j - length out" using j by linarith
      from no_match_inside_marker_line [OF this, of m E] b j show False
        by simp
    qed
  qed
  then show ?thesis
    unfolding P match_endMarker_None_iff by blast
qed

lemma stream_match:
  assumes H: "match_endMarker m (out @ marker_line m E) = Some (length out, decimal E)"
    and n: "length out + length (marker_line m E) \<le> n"
  shows "match_endMarker m (take n (out @ marker_line m E @ rest)) = Some (length out, decimal E)"
proof -
  let ?M = "marker_line m E" and ?S = "marker_stem m"
  define r where "r = take (n - (length out + length ?M)) rest"
  have P: "take n (out @ ?M @ rest) = out @ ?M @ r"
    using n by (simp add: r_def)
  have "endMarkerPattern_at m (drop j (out @ ?M @ r)) = None" if j: "j < length out" for j
  proof (rule ccontr)
    assume "endMarkerPattern_at m (drop j (out @ ?M @ r)) \<noteq> None"
    then obtain ds where "endMarkerPattern_at m (drop j (out @ ?M @ r)) = Some ds"
      by auto
    then have a: "endMarkerPattern_at m ((drop j out @ ?M) @ r) = Some ds"
      using j by simp
    have none: "endMarkerPattern_at m (drop j out @ ?M) = None"
      using H j by (auto simp: match_endMarker_Some_iff)
    let ?k = "length (drop j out)"
    have k: "1 \<le> ?k" using j by simp
    show False
    proof (cases "length ?S + length ds + 3 \<le> length (drop j out @ ?M)")
      case True
      from endMarkerPattern_at_within [OF a True] none show False by simp
    next
      case False
      then have long: "?k - 1 < length ds"
        using k by (simp add: length_marker_line)
      have idx: "length ?S + (?k - 1) = ?k + (length ?S - 1)"
        using k marker_stem_nonempty [of m] by linarith
      have d: "is_digit (((drop j out @ ?M) @ r) ! (length ?S + (?k - 1)))"
        by (rule match_digit_index [OF a long])
      have e: "((drop j out @ ?M) @ r) ! (?k + (length ?S - 1)) = ?M ! (length ?S - 1)"
      proof -
        have "length ?S - 1 < length ?M"
          using marker_stem_nonempty [of m] by (simp add: length_marker_line)
        then show ?thesis
          by (simp add: nth_append)
      qed
      have "is_digit 0x3A"
        using d unfolding idx e marker_line_colon .
      then show False
        using not_digit_colon by simp
    qed
  qed
  moreover have "endMarkerPattern_at m (drop (length out) (out @ ?M @ r)) = Some (decimal E)"
    by (simp add: marker_line_matches)
  ultimately show ?thesis
    unfolding P match_endMarker_Some_iff by simp
qed

subsection \<open>Texts of the marker's shape\<close>

lemma alnum_not_colon: "is_alnum c \<Longrightarrow> c \<noteq> 0x3A"
  by (auto simp: is_alnum_def is_letter_def is_digit_def)

lemma alnum_not_underscore: "is_alnum c \<Longrightarrow> c \<noteq> 0x5F"
  by (auto simp: is_alnum_def is_letter_def is_digit_def)

lemma length_prefix: "length END_MARKER_PREFIX = 19"
  by (simp add: END_MARKER_PREFIX_def js_def)

lemma prefix_no_colon: "0x3A \<notin> set END_MARKER_PREFIX"
  by (simp add: END_MARKER_PREFIX_def js_def)

lemma prefix_last_underscore: "END_MARKER_PREFIX ! 18 = 0x5F"
  by (simp add: END_MARKER_PREFIX_def js_def)

lemma nth_separator:
  assumes "c \<notin> set A" and "c \<notin> set B" and "k < length (A @ [c] @ B)"
    and "(A @ [c] @ B) ! k = c"
  shows "k = length A"
proof (rule ccontr)
  assume n: "k \<noteq> length A"
  show False
  proof (cases "k < length A")
    case True
    then have "(A @ [c] @ B) ! k = A ! k" by (simp add: nth_append)
    then show False using assms(1,4) True by (metis nth_mem)
  next
    case False
    then have g: "length A < k" using n by simp
    then have "(A @ [c] @ B) ! k = B ! (k - length A - 1)"
      by (simp add: nth_append nth_Cons')
    moreover have "k - length A - 1 < length B"
      using assms(3) g by simp
    ultimately show False using assms(2,4) by (metis nth_mem)
  qed
qed

text \<open>
  In a text of the marker's shape (prefix, an alphanumeric id, a colon, a field without
  colon, three underscores) the only colon is the one after the id.
\<close>

lemma marker_shape_colon:
  assumes a: "list_all is_alnum a" and x: "0x3A \<notin> set x"
    and k: "k < length (END_MARKER_PREFIX @ a @ js '':'' @ x @ js ''___'')"
    and c: "(END_MARKER_PREFIX @ a @ js '':'' @ x @ js ''___'') ! k = 0x3A"
  shows "k = 19 + length a"
proof -
  let ?T = "END_MARKER_PREFIX @ a @ js '':'' @ x @ js ''___''"
  have 1: "0x3A \<notin> set (END_MARKER_PREFIX @ a)"
    using a prefix_no_colon alnum_not_colon by (auto simp: list_all_iff)
  have 2: "0x3A \<notin> set (x @ js ''___'')"
    using x by (simp add: js_underscores)
  have 3: "?T = (END_MARKER_PREFIX @ a) @ [0x3A] @ (x @ js ''___'')"
    by (simp add: js_colon)
  have "k = length (END_MARKER_PREFIX @ a)"
    using nth_separator [OF 1 2] k c unfolding 3 by blast
  then show ?thesis by (simp add: length_prefix)
qed


lemma takeWhile_not_underscore:
  assumes "0x5F \<notin> set x"
  shows "takeWhile (\<lambda>c. c \<noteq> 0x5F) (x @ js ''___'' @ r) = x"
  using assms by (induction x) (simp_all add: js_underscores)

lemma digits_no_underscore: "list_all is_digit ds \<Longrightarrow> 0x5F \<notin> set ds"
  using not_digit_underscore by (auto simp: list_all_iff)

lemma marker_shaped_text_matches_iff:
  assumes m: "list_all is_alnum m" and a: "list_all is_alnum a"
    and x1: "0x3A \<notin> set x" and x2: "0x5F \<notin> set x"
  shows "match_endMarker m (END_MARKER_PREFIX @ a @ js '':'' @ x @ js ''___'') \<noteq> None
         \<longleftrightarrow> a = m \<and> x \<noteq> [] \<and> list_all is_digit x"
proof
  define T where "T = END_MARKER_PREFIX @ a @ js '':'' @ x @ js ''___''"
  let ?L = "length (marker_stem m)"
  assume "match_endMarker m (END_MARKER_PREFIX @ a @ js '':'' @ x @ js ''___'') \<noteq> None"
  then obtain j ds where "match_endMarker m T = Some (j, ds)"
    unfolding T_def by auto
  then have at: "endMarkerPattern_at m (drop j T) = Some ds" and jl: "j \<le> length T"
    by (simp_all add: match_endMarker_Some_iff)
  have L: "?L = 20 + length m"
    by (simp add: marker_stem_def length_prefix js_colon)
  from match_colon_index [OF at]
  have c0: "?L - 1 < length T - j" and c2': "drop j T ! (?L - 1) = 0x3A"
    by simp_all
  have c1: "j + (?L - 1) < length T"
    using c0 by linarith
  have c2: "T ! (j + (?L - 1)) = 0x3A"
    using c2' jl by (simp add: nth_drop)
  have "j + (?L - 1) = 19 + length a"
    using marker_shape_colon [OF a x1] c1 c2 unfolding T_def by blast
  then have jm: "j + length m = length a"
    using L by simp
  from at obtain r where ds: "ds \<noteq> []" "list_all is_digit ds"
    and d: "drop j T = marker_stem m @ ds @ js ''___'' @ r"
    by (auto simp: endMarkerPattern_at_iff)
  have j0: "j = 0"
  proof (rule ccontr)
    assume "j \<noteq> 0"
    then have j1: "1 \<le> j" by simp
    have "drop j T ! 18 = END_MARKER_PREFIX ! 18"
      unfolding d by (simp add: marker_stem_def nth_append length_prefix)
    moreover have "drop j T ! 18 = T ! (j + 18)"
      using jl by (simp add: nth_drop)
    moreover have "T ! (j + 18) = a ! (j - 1)"
    proof -
      have "j + 18 = length END_MARKER_PREFIX + (j - 1)"
        using j1 by (simp add: length_prefix)
      moreover have "j - 1 < length a"
        using j1 jm by linarith
      ultimately show ?thesis
        unfolding T_def by (simp add: nth_append)
    qed
    moreover have "is_alnum (a ! (j - 1))"
    proof -
      have "j - 1 < length a" using j1 jm by linarith
      then show ?thesis using a by (simp add: list_all_length)
    qed
    ultimately show False
      using prefix_last_underscore alnum_not_underscore by metis
  qed
  then have len: "length a = length m" using jm by simp
  have e: "END_MARKER_PREFIX @ a @ js '':'' @ x @ js ''___''
           = END_MARKER_PREFIX @ m @ js '':'' @ ds @ js ''___'' @ r"
    using d j0 unfolding T_def by (simp add: marker_stem_def)
  then have am: "a = m" and rest: "x @ js ''___'' = ds @ js ''___'' @ r"
    using len by (simp_all add: js_colon)
  have "takeWhile (\<lambda>c. c \<noteq> 0x5F) (x @ js ''___'' @ []) = x"
    by (rule takeWhile_not_underscore [OF x2])
  moreover have "takeWhile (\<lambda>c. c \<noteq> 0x5F) (ds @ js ''___'' @ r) = ds"
    by (rule takeWhile_not_underscore [OF digits_no_underscore [OF ds(2)]])
  ultimately have "x = ds"
    using rest by simp
  then show "a = m \<and> x \<noteq> [] \<and> list_all is_digit x"
    using am ds by simp
next
  assume r: "a = m \<and> x \<noteq> [] \<and> list_all is_digit x"
  have "END_MARKER_PREFIX @ a @ js '':'' @ x @ js ''___''
          = [] @ marker_stem m @ x @ js ''___'' @ []"
    using r by (simp add: marker_stem_def)
  then show "match_endMarker m (END_MARKER_PREFIX @ a @ js '':'' @ x @ js ''___'') \<noteq> None"
    using r unfolding match_endMarker_occurs_iff by blast
qed

text \<open>
  Claim C3. The marker scan anchors on the job's own marker id. In a pending job with an
  open socket, a frame resolves the promise exactly when it is an OUTPUT frame and the
  output buffer, with the frame's text appended, contains
  \<open>___TTYD_EXEC_END___<markerId>:<digits>___\<close> with this job's marker id and a non-empty
  run of decimal digits. In particular, when the buffer then is a text of the marker's
  shape (the prefix, an alphanumeric id, a colon, a field without colon and underscore,
  three underscores), the promise is resolved exactly when the id is the job's own and the
  field is a non-empty run of decimal digits: another id, or a field that is not decimal,
  leaves the promise pending.
\<close>

theorem marker_scan_exact:
  assumes "s = run P opts init_job es" and "\<not> isResolved s" and "socketState s = Some OPEN"
  shows "(isResolved (step P opts s (Message raw)) \<longleftrightarrow>
           (\<exists>payload pre ds post.
              raw = 0x30 # payload \<and> ds \<noteq> [] \<and> list_all is_digit ds
              \<and> outputBuffer s @ textDecode P payload =
                  pre @ END_MARKER_PREFIX @ markerId opts @ js '':'' @ ds @ js ''___'' @ post))
         \<and> (\<forall>payload a x.
               raw = 0x30 # payload
               \<and> outputBuffer s @ textDecode P payload =
                   END_MARKER_PREFIX @ a @ js '':'' @ x @ js ''___''
               \<and> list_all is_alnum (markerId opts) \<and> list_all is_alnum a
               \<and> 0x3A \<notin> set x \<and> 0x5F \<notin> set x
               \<longrightarrow> (isResolved (step P opts s (Message raw))
                      \<longleftrightarrow> a = markerId opts \<and> x \<noteq> [] \<and> list_all is_digit x))"
proof -
  have A: "isResolved (step P opts s (Message raw)) = isResolved (onMessage P opts s raw)"
    using assms(3) by (simp add: step_def)
  have C: "match_endMarker (markerId opts) b \<noteq> None \<longleftrightarrow>
           (\<exists>pre ds post. ds \<noteq> [] \<and> list_all is_digit ds
              \<and> b = pre @ END_MARKER_PREFIX @ markerId opts @ js '':'' @ ds @ js ''___'' @ post)"
    for b
    using match_endMarker_occurs_iff [of "markerId opts" b] by (simp add: marker_stem_def)
  have 1: "isResolved (step P opts s (Message raw)) \<longleftrightarrow>
           (\<exists>payload pre ds post.
              raw = 0x30 # payload \<and> ds \<noteq> [] \<and> list_all is_digit ds
              \<and> outputBuffer s @ textDecode P payload =
                  pre @ END_MARKER_PREFIX @ markerId opts @ js '':'' @ ds @ js ''___'' @ post)"
    unfolding A onMessage_resolves_iff [OF assms(2)] C by blast
  have 2: "isResolved (step P opts s (Message raw))
             \<longleftrightarrow> a = markerId opts \<and> x \<noteq> [] \<and> list_all is_digit x"
    if "raw = 0x30 # payload"
      and "outputBuffer s @ textDecode P payload = END_MARKER_PREFIX @ a @ js '':'' @ x @ js ''___''"
      and "list_all is_alnum (markerId opts)" and "list_all is_alnum a"
      and "0x3A \<notin> set x" and "0x5F \<notin> set x"
    for payload a x
    unfolding A onMessage_resolves_iff [OF assms(2)]
    using that marker_shaped_text_matches_iff [of "markerId opts" a x] by auto
  show ?thesis
    using 1 2 by blast
qed

theorem marker_scan_exact_witness:
  "\<not> isResolved (run ascii_platform example_opts init_job [SocketCreated, Open]) \<and>
   socketState (run ascii_platform example_opts init_job [SocketCreated, Open]) = Some OPEN \<and>
   \<not> isResolved (step ascii_platform example_opts
        (run ascii_platform example_opts init_job [SocketCreated, Open])
        (Message foreign_marker_frame)) \<and>
   isResolved (step ascii_platform example_opts
        (run ascii_platform example_opts init_job [SocketCreated, Open])
        (Message own_marker_frame))"
proof -
  let ?s = "run ascii_platform example_opts init_job [SocketCreated, Open]"
  have h: "\<not> isResolved ?s" by code_simp
  have k: "socketState ?s = Some OPEN" by code_simp
  have own: "own_marker_frame = 0x30 # tl own_marker_frame"
    and foreign: "foreign_marker_frame = 0x30 # tl foreign_marker_frame"
    by code_simp+
  have occ: "outputBuffer ?s @ textDecode ascii_platform (tl own_marker_frame) =
               [] @ END_MARKER_PREFIX @ markerId example_opts @ js '':''
                 @ js ''0'' @ js ''___'' @ []"
    by code_simp
  have shape: "outputBuffer ?s @ textDecode ascii_platform (tl foreign_marker_frame) =
               END_MARKER_PREFIX @ js ''abcdefgx'' @ js '':'' @ js ''0'' @ js ''___''"
    by code_simp
  have d: "js ''0'' \<noteq> [] \<and> list_all is_digit (js ''0'')"
    by code_simp
  have al: "list_all is_alnum (markerId example_opts) \<and> list_all is_alnum (js ''abcdefgx'')
            \<and> 0x3A \<notin> set (js ''0'') \<and> 0x5F \<notin> set (js ''0'')
            \<and> js ''abcdefgx'' \<noteq> markerId example_opts"
    by code_simp
  have "isResolved (step ascii_platform example_opts ?s (Message own_marker_frame))"
    using marker_scan_exact [OF refl h k, of own_marker_frame] own occ d by blast
  moreover have "\<not> isResolved (step ascii_platform example_opts ?s (Message foreign_marker_frame))"
    using marker_scan_exact [OF refl h k, of foreign_marker_frame] foreign shape al by blast
  ultimately show ?thesis
    using h k by simp
qed

subsection \<open>A session that prints the marker\<close>

lemma received_text_Nil: "received_text P (Message []) = []"
  by (simp add: received_text_def decodeFrame_Nil)

lemma received_text_Cons:
  "received_text P (Message (b # payload)) = (if b = 0x30 then textDecode P payload else [])"
  by (simp add: received_text_def decodeFrame_Cons is_OUTPUT_iff)

lemma onMessage_pending:
  assumes "match_endMarker (markerId opts) (outputBuffer s @ received_text P (Message raw)) = None"
  shows "onMessage P opts s raw =
           s\<lparr>outputBuffer := outputBuffer s @ received_text P (Message raw)\<rparr>"
proof (cases raw)
  case Nil
  then show ?thesis by (simp add: onMessage_def decodeFrame_Nil received_text_Nil)
next
  case (Cons b payload)
  show ?thesis
  proof (cases "b = 0x30")
    case True
    then show ?thesis
      using assms Cons
      by (simp add: onMessage_def decodeFrame_Cons is_OUTPUT_iff received_text_Cons Let_def)
  next
    case False
    then show ?thesis
      using Cons by (simp add: onMessage_def decodeFrame_Cons is_OUTPUT_iff received_text_Cons)
  qed
qed

lemma onMessage_match:
  assumes "match_endMarker (markerId opts) (outputBuffer s @ received_text P (Message raw))
             = Some (i, ds)"
    and "match_endMarker (markerId opts) (outputBuffer s) = None"
  shows "onMessage P opts s raw =
           resolveWith (s\<lparr>outputBuffer := outputBuffer s @ received_text P (Message raw)\<rparr>)
             (markerResult opts (outputBuffer s @ received_text P (Message raw)) i ds)"
proof (cases raw)
  case Nil
  then show ?thesis using assms by (simp add: received_text_Nil)
next
  case (Cons b payload)
  show ?thesis
  proof (cases "b = 0x30")
    case True
    then show ?thesis
      using assms Cons
      by (simp add: onMessage_def decodeFrame_Cons is_OUTPUT_iff received_text_Cons Let_def)
  next
    case False
    then show ?thesis
      using assms Cons by (simp add: received_text_Cons)
  qed
qed

lemma step_relay_pending:
  assumes "session_open s" and "relay_event e"
    and "match_endMarker (markerId opts) (outputBuffer s @ received_text P e) = None"
  shows "session_open (step P opts s e) \<and>
         outputBuffer (step P opts s e) = outputBuffer s @ received_text P e"
proof (cases e)
  case CommandTimer
  then show ?thesis
    using assms(1)
    by (simp add: session_open_def step_def onCommandTimer_def ws_send_def received_text_def)
next
  case (Message raw)
  have "step P opts s e = onMessage P opts s raw"
    using assms(1) Message by (simp add: session_open_def step_def)
  then show ?thesis
    using assms(1,3) Message by (simp add: onMessage_pending session_open_def)
qed (use assms(2) in \<open>simp_all add: relay_event_def\<close>)

lemma step_relay_match:
  assumes "session_open s" and "relay_event e"
    and "match_endMarker (markerId opts) (outputBuffer s @ received_text P e) = Some (i, ds)"
    and "match_endMarker (markerId opts) (outputBuffer s) = None"
  shows "isResolved (step P opts s e) \<and>
         settled (step P opts s e) =
           [Resolved (markerResult opts (outputBuffer s @ received_text P e) i ds)]"
proof (cases e)
  case CommandTimer
  then show ?thesis
    using assms(3,4) by (simp add: received_text_def)
next
  case (Message raw)
  have "step P opts s e = onMessage P opts s raw"
    using assms(1) Message by (simp add: session_open_def step_def)
  then show ?thesis
    using assms Message
    by (simp add: onMessage_match session_open_def resolveWith_def cleanup_def Let_def)
qed (use assms(2) in \<open>simp_all add: relay_event_def\<close>)

lemma step_after_settlement:
  assumes "isResolved s"
  shows "isResolved (step P opts s e) \<and> settled (step P opts s e) = settled s"
  using assms
  by (cases e)
    (simp_all add: step_def onTimeout_def onOpen_def onCommandTimer_def onMessage_def
      onError_def onClose_def onCreateFailed_def resolveWith_def rejectWith_def ws_send_def
      Let_def split: option.splits)

lemma run_after_settlement:
  assumes "isResolved s"
  shows "isResolved (run P opts s es) \<and> settled (run P opts s es) = settled s"
  using assms unfolding run_def
  by (induction es arbitrary: s) (simp_all add: step_after_settlement)

lemma run_Cons: "run P opts s (e # es) = run P opts (step P opts s e) es"
  by (simp add: run_def)

lemma run_append: "run P opts s (es @ fs) = run P opts (run P opts s es) fs"
  by (simp add: run_def)

lemma relay_session_resolves:
  assumes H: "match_endMarker (markerId opts) (out @ marker_line (markerId opts) E)
                = Some (length out, decimal E)"
    and "list_all relay_event es" and "session_open s"
    and "outputBuffer s @ concat (map (received_text P) es)
           = out @ marker_line (markerId opts) E @ rest"
    and "length (outputBuffer s) < length out + length (marker_line (markerId opts) E)"
  shows "\<exists>n. settled (run P opts s (es @ later)) =
           [Resolved (markerResult opts (take n (out @ marker_line (markerId opts) E @ rest))
                        (length out) (decimal E))]
           \<and> length out + length (marker_line (markerId opts) E) \<le> n"
  using assms(2-)
proof (induction es arbitrary: s)
  case Nil
  then show ?case by simp
next
  case (Cons e es)
  let ?T = "out @ marker_line (markerId opts) E @ rest"
  let ?B = "outputBuffer s @ received_text P e"
  have B: "?B = take (length ?B) ?T"
    using Cons.prems(3) by (metis append_eq_conv_conj append.assoc concat.simps(2) list.simps(9))
  have B0: "outputBuffer s = take (length (outputBuffer s)) ?T"
    using Cons.prems(3) by (metis append_eq_conv_conj)
  have none0: "match_endMarker (markerId opts) (outputBuffer s) = None"
    using stream_prefix_no_match [OF H Cons.prems(4), of rest] B0 by simp
  show ?case
  proof (cases "length ?B < length out + length (marker_line (markerId opts) E)")
    case True
    have none: "match_endMarker (markerId opts) ?B = None"
      using stream_prefix_no_match [OF H True, of rest] B by simp
    from step_relay_pending [OF Cons.prems(2) _ none] Cons.prems(1)
    have o: "session_open (step P opts s e)"
      and b: "outputBuffer (step P opts s e) = ?B"
      by simp_all
    have "\<exists>n. settled (run P opts (step P opts s e) (es @ later)) =
           [Resolved (markerResult opts (take n ?T) (length out) (decimal E))]
           \<and> length out + length (marker_line (markerId opts) E) \<le> n"
      using Cons.IH [OF _ o] Cons.prems(1,3) True by (simp add: b)
    then show ?thesis by (simp add: run_Cons)
  next
    case False
    then have ge: "length out + length (marker_line (markerId opts) E) \<le> length ?B"
      by simp
    have some: "match_endMarker (markerId opts) ?B = Some (length out, decimal E)"
      using stream_match [OF H ge, of rest] B by simp
    from step_relay_match [OF Cons.prems(2) _ some none0] Cons.prems(1)
    have r: "isResolved (step P opts s e)"
      and st: "settled (step P opts s e) = [Resolved (markerResult opts ?B (length out) (decimal E))]"
      by simp_all
    have "settled (run P opts s ((e # es) @ later)) = settled (step P opts s e)"
      using run_after_settlement [OF r] by (simp add: run_Cons)
    then show ?thesis
      using st B ge by metis
  qed
qed

lemma session_open_after_open:
  "session_open (run P opts init_job [SocketCreated, Open])
   \<and> outputBuffer (run P opts init_job [SocketCreated, Open]) = []"
  by (simp add: run_def step_def init_job_def onOpen_def ws_send_def session_open_def)

lemma markerResult_at_marker:
  assumes "length out + length (marker_line (markerId opts) E) \<le> n"
  shows "markerResult opts (take n (out @ marker_line (markerId opts) E @ rest)) (length out)
           (decimal E) =
         \<lparr>output = (let cleanOutput = remove_marker_echo (markerId opts)
                                        (remove_command_echo (markerId opts) out)
                    in if stripAnsi opts then trim (stripAnsiCodes cleanOutput)
                       else trim cleanOutput),
          exitCode = int E, timedOut = False\<rparr>"
proof -
  have "take (length out) (take n (out @ marker_line (markerId opts) E @ rest)) = out"
    using assms by (simp add: min_def)
  then show ?thesis
    by (simp add: markerResult_def parseInt10_decimal Let_def)
qed

text \<open>
  Claim C1, as amended. Let the frames of an undisturbed session carry, in any chunking,
  the text \<open>out\<close> followed by the marker line for exit code \<open>E\<close> and anything after
  it, where the first match of the job's marker pattern in \<open>out\<close> followed by the marker
  line is the marker line itself (no match begins inside \<open>out\<close>, not even one that the
  first underscores of the marker line complete). Then the promise is resolved once, with
  \<open>exitCode = E\<close>, \<open>timedOut = false\<close> and the output obtained from \<open>out\<close> by removing
  the echoed command line and the marker echo line, stripping ANSI sequences when
  \<open>stripAnsi\<close> is set, and trimming; events that come later change nothing.
\<close>

theorem marker_round_trip:
  assumes "list_all relay_event es"
    and "concat (map (received_text P) es) = out @ marker_line (markerId opts) E @ rest"
    and "match_endMarker (markerId opts) (out @ marker_line (markerId opts) E)
           = Some (length out, decimal E)"
    and "E < 2 ^ 53"
  shows "settled (run P opts init_job ([SocketCreated, Open] @ es @ later)) =
           [Resolved
              \<lparr>output = (let cleanOutput = remove_marker_echo (markerId opts)
                                             (remove_command_echo (markerId opts) out)
                         in if stripAnsi opts then trim (stripAnsiCodes cleanOutput)
                            else trim cleanOutput),
               exitCode = int E, timedOut = False\<rparr>]"
proof -
  let ?s = "run P opts init_job [SocketCreated, Open]"
  have o: "session_open ?s" and b: "outputBuffer ?s = []"
    using session_open_after_open [of P opts] by simp_all
  have t: "outputBuffer ?s @ concat (map (received_text P) es)
             = out @ marker_line (markerId opts) E @ rest"
    using assms(2) b by simp
  have l: "length (outputBuffer ?s) < length out + length (marker_line (markerId opts) E)"
    using b by (simp add: length_marker_line)
  from relay_session_resolves [OF assms(3) assms(1) o t l, of later]
  obtain n where A: "settled (run P opts ?s (es @ later)) =
      [Resolved (markerResult opts (take n (out @ marker_line (markerId opts) E @ rest))
                   (length out) (decimal E))]"
    and ge: "length out + length (marker_line (markerId opts) E) \<le> n"
    by blast
  have R: "run P opts init_job ([SocketCreated, Open] @ es @ later) = run P opts ?s (es @ later)"
    by (rule run_append)
  show ?thesis
    using A by (simp only: R markerResult_at_marker [OF ge])
qed

theorem marker_round_trip_witness:
  "list_all relay_event echo_hi_trace \<and>
   concat (map (received_text ascii_platform) echo_hi_trace) =
     echo_hi_output @ marker_line (markerId example_opts) 0 @ ([0x0D, 0x0A] @ js ''$ '') \<and>
   match_endMarker (markerId example_opts) (echo_hi_output @ marker_line (markerId example_opts) 0)
     = Some (length echo_hi_output, decimal 0) \<and>
   settled (run ascii_platform example_opts init_job
              ([SocketCreated, Open] @ echo_hi_trace @ [Close 1000 []])) =
     [Resolved \<lparr>output = js ''hi'', exitCode = 0, timedOut = False\<rparr>]"
proof -
  have r: "list_all relay_event echo_hi_trace"
    by code_simp
  have t: "concat (map (received_text ascii_platform) echo_hi_trace) =
     echo_hi_output @ marker_line (markerId example_opts) 0 @ ([0x0D, 0x0A] @ js ''$ '')"
    by code_simp
  have m: "match_endMarker (markerId example_opts)
             (echo_hi_output @ marker_line (markerId example_opts) 0)
           = Some (length echo_hi_output, decimal 0)"
    by code_simp
  have e: "(0::nat) < 2 ^ 53"
    by simp
  have c: "(let cleanOutput = remove_marker_echo (markerId example_opts)
                               (remove_command_echo (markerId example_opts) echo_hi_output)
            in if stripAnsi example_opts then trim (stripAnsiCodes cleanOutput)
               else trim cleanOutput) = js ''hi''"
    by code_simp
  show ?thesis
    using marker_round_trip [OF r t m e, of "[Close 1000 []]"] r t m
    by (simp add: c)
qed

text \<open>
  The claim as stated asks only that \<open>out\<close> contain no occurrence of the pattern. That
  is not enough: here \<open>out\<close> ends with the marker stem and the digit 7, contains no
  occurrence of the pattern, and is followed by the marker line for exit code 0; the
  underscores that open the marker line complete a match, and the job resolves with exit
  code 7.
\<close>

theorem marker_round_trip_counterexample:
  "list_all relay_event collision_trace \<and>
   concat (map (received_text ascii_platform) collision_trace) =
     collision_output @ marker_line (markerId example_opts) 0 @ [0x0D, 0x0A] \<and>
   match_endMarker (markerId example_opts) collision_output = None \<and>
   settled (run ascii_platform example_opts init_job
              ([SocketCreated, Open] @ collision_trace)) =
     [Resolved \<lparr>output = [], exitCode = 7, timedOut = False\<rparr>]"
  by code_simp

subsection \<open>Settlement and cleanup\<close>

lemma settled_at_most_once: "length (settled (run P opts init_job es)) \<le> 1"
  using job_inv_run [OF job_inv_init, of P opts es]
  by (simp add: job_inv_def split: if_splits)

lemma settlement_runs_cleanup:
  assumes "job_inv s" and "\<not> isResolved s" and "isResolved (step P opts s e)"
  shows "\<not> timeoutArmed (step P opts s e) \<and> \<not> ws (step P opts s e)
         \<and> (ws s \<longrightarrow> closeCalls (step P opts s e)
                          = closeCalls s @ [(1000, js ''Command completed'')])"
  using assms
  by (cases e)
    (auto simp: job_inv_def handler_defs Let_def split: if_splits option.splits list.splits)

lemma closeCalls_after_settlement:
  assumes "isResolved s"
  shows "isResolved (step P opts s e) \<and> closeCalls (step P opts s e) = closeCalls s"
  using assms
  by (cases e)
    (simp_all add: step_def onTimeout_def onOpen_def onCommandTimer_def onMessage_def
      onError_def onClose_def onCreateFailed_def resolveWith_def rejectWith_def ws_send_def
      Let_def split: option.splits)

lemma closeCalls_run_after_settlement:
  assumes "isResolved s"
  shows "closeCalls (run P opts s es) = closeCalls s"
  using assms unfolding run_def
  by (induction es arbitrary: s) (simp_all add: closeCalls_after_settlement)

text \<open>
  Claim C5. The promise is settled at most once (\<open>settled_at_most_once\<close>): close, error
  and message events after the first settlement change neither the settlements nor the
  calls of \<open>close\<close>. A settlement of a job that holds its socket disarms the timer and
  closes the socketState (\<open>settlement_runs_cleanup\<close>). But \<open>cleanup\<close> closes only the socket
  that \<open>ws\<close> holds at that moment. When the timeout fires while \<open>createWebSocket()\<close>
  is still pending, the promise resolves with \<open>ws\<close> null; the socket that arrives
  afterwards is stored and its listeners are registered without a look at
  \<open>isResolved\<close>. It opens, the handshake and the wrapped command are sent on it, and
  whatever happens later the job never calls \<open>close\<close> on it.
\<close>

theorem socket_created_after_timeout_is_never_closed:
  "settled (run P opts init_job [Timeout, SocketCreated, Open, CommandTimer]) =
     [Resolved \<lparr>output = [], exitCode = - 1, timedOut = True\<rparr>]
   \<and> socketState (run P opts init_job [Timeout, SocketCreated, Open, CommandTimer]) = Some OPEN
   \<and> sent (run P opts init_job [Timeout, SocketCreated, Open, CommandTimer]) =
       [textEncode P (initMsg P opts),
        inputFrame P (wrapCommand (command opts) (markerId opts)), enterPayload]
   \<and> closeCalls (run P opts init_job ([Timeout, SocketCreated] @ later)) = []"
proof -
  have r: "isResolved (run P opts init_job [Timeout, SocketCreated])"
    and c: "closeCalls (run P opts init_job [Timeout, SocketCreated]) = []"
    by (simp_all add: run_def step_def init_job_def onTimeout_def resolveWith_def cleanup_def
        Let_def)
  have "closeCalls (run P opts init_job ([Timeout, SocketCreated] @ later)) = []"
    using closeCalls_run_after_settlement [OF r, where es = later] c by (simp only: run_append)
  moreover have "settled (run P opts init_job [Timeout, SocketCreated, Open, CommandTimer]) =
     [Resolved \<lparr>output = [], exitCode = - 1, timedOut = True\<rparr>]"
    by (simp add: run_def step_def init_job_def onTimeout_def resolveWith_def cleanup_def
        onOpen_def onCommandTimer_def ws_send_def Let_def)
  moreover have "socketState (run P opts init_job [Timeout, SocketCreated, Open, CommandTimer]) = Some OPEN"
    by (simp add: run_def step_def init_job_def onTimeout_def resolveWith_def cleanup_def
        onOpen_def onCommandTimer_def ws_send_def Let_def)
  moreover have "sent (run P opts init_job [Timeout, SocketCreated, Open, CommandTimer]) =
       [textEncode P (initMsg P opts),
        inputFrame P (wrapCommand (command opts) (markerId opts)), enterPayload]"
    by (simp add: run_def step_def init_job_def onTimeout_def resolveWith_def cleanup_def
        onOpen_def onCommandTimer_def ws_send_def Let_def)
  ultimately show ?thesis by simp
qed

section \<open>Properties of the interactive terminal\<close>

subsection \<open>Frames\<close>

lemma charCodeAt0_fromCharCode: "charCodeAt0 (fromCharCode c) = c"
  by (simp add: charCodeAt0_def fromCharCode_def ucast_up_ucast_id is_up)

lemma binaryFrame_eq: "binaryFrame (fromCharCode c) p = Some (c # p)"
  by (simp add: binaryFrame_def typed_array_set_def array_store_def new_Uint8Array_def
      charCodeAt0_fromCharCode)

lemma textFrame_eq:
  "textFrame P (fromCharCode c) text =
     c # take (length text * 3) (textEncodeInto P text (length text * 3))"
  by (simp add: textFrame_def subarray_def array_store_def new_Uint8Array_def
      charCodeAt0_fromCharCode Let_def)

text \<open>
  Claim C7. Frame codec round trip: for every code byte and payload, the frame that
  \<open>sendData\<close> builds is the code byte followed by the payload bytes, and decoding it
  (byte 0 as the code, the remaining bytes as the payload) gives back the code and the
  payload. A text frame is the code byte followed by exactly the bytes the encoder wrote
  for the text (at most three per code unit, the room the buffer has), and decodes to the
  code and those bytes; with an encoder of ASCII text the frame for \<open>ls\<close> is the INPUT code
  followed by the two bytes of \<open>ls\<close>. An empty message decodes to nothing.
\<close>

theorem frame_codec_round_trip:
  "(case binaryFrame (fromCharCode c) p of
      None \<Rightarrow> False
    | Some f \<Rightarrow> f = c # p \<and> decodeFrame f = Some (fromCharCode c, p) \<and> hd f = c \<and> tl f = p)
   \<and> textFrame P (fromCharCode c) text =
       c # take (length text * 3) (textEncodeInto P text (length text * 3))
   \<and> hd (textFrame P (fromCharCode c) text) = c
   \<and> tl (textFrame P (fromCharCode c) text) =
       take (length text * 3) (textEncodeInto P text (length text * 3))
   \<and> decodeFrame (textFrame P (fromCharCode c) text) =
       Some (fromCharCode c, tl (textFrame P (fromCharCode c) text))
   \<and> decodeFrame (textFrame P (fromCharCode c) text) =
       Some (fromCharCode c, take (length text * 3) (textEncodeInto P text (length text * 3)))
   \<and> textFrame ascii_platform ClientCommand_INPUT (js ''ls'') = [0x30, 0x6C, 0x73]
   \<and> decodeFrame (textFrame ascii_platform ClientCommand_INPUT (js ''ls'')) =
       Some (ClientCommand_INPUT, [0x6C, 0x73])
   \<and> decodeFrame [] = None"
proof -
  have b: "binaryFrame (fromCharCode c) p = Some (c # p)"
    by (rule binaryFrame_eq)
  have t: "textFrame P (fromCharCode c) text =
             c # take (length text * 3) (textEncodeInto P text (length text * 3))"
    by (rule textFrame_eq)
  have e: "textFrame ascii_platform ClientCommand_INPUT (js ''ls'') = [0x30, 0x6C, 0x73]"
    by code_simp
  have d: "decodeFrame [0x30, 0x6C, 0x73] = Some (ClientCommand_INPUT, [0x6C, 0x73])"
    by code_simp
  show ?thesis
    unfolding b t e d by (simp add: decodeFrame_def)
qed

subsection \<open>Input without an open socket\<close>

text \<open>
  Claim C10. When the socket is null or not open, \<open>sendData\<close> returns the state as it is:
  nothing is sent, no exception escapes, and no part of the state holds the data for later.
  The \<open>onData\<close> and \<open>onBinary\<close> handlers then only scroll to the bottom and clear the
  new content indicator; the state they leave does not depend on the data.
\<close>

theorem sendData_without_open_socket_is_dropped:
  assumes "socket s = None \<or> (\<exists>k. socket s = Some k \<and> readyState k \<noteq> OPEN)"
  shows "sendData P s d = s
         \<and> xstep P props s (XData text) = before_send s
         \<and> xstep P props s (XBinary text) = before_send s
         \<and> socket (before_send s) = socket s
         \<and> uncaught (before_send s) = uncaught s"
proof -
  have b: "socket (before_send s) = socket s" "uncaught (before_send s) = uncaught s"
    by (simp_all add: before_send_def Let_def)
  have g: "(case socket s of None \<Rightarrow> True | Some k \<Rightarrow> readyState k \<noteq> OPEN)"
    using assms by auto
  then have g': "(case socket (before_send s) of None \<Rightarrow> True | Some k \<Rightarrow> readyState k \<noteq> OPEN)"
    by (simp add: b)
  show ?thesis
    using g g' b by (simp add: sendData_def xstep_def onData_def onBinary_def)
qed

theorem sendData_without_open_socket_is_dropped_witness:
  "(\<exists>k. socket connecting_terminal = Some k \<and> readyState k = CONNECTING)
   \<and> sendData ascii_platform connecting_terminal (TextData (js ''ls'')) = connecting_terminal
   \<and> xstep ascii_platform example_xterm_props connecting_terminal (XData (js ''ls''))
       = connecting_terminal
   \<and> xstep ascii_platform example_xterm_props connecting_terminal (XBinary (js ''ls''))
       = connecting_terminal"
proof -
  have k: "socket connecting_terminal = Some (the (socket connecting_terminal))
           \<and> readyState (the (socket connecting_terminal)) = CONNECTING"
    by code_simp
  then have g: "socket connecting_terminal = None
     \<or> (\<exists>k. socket connecting_terminal = Some k \<and> readyState k \<noteq> OPEN)"
    by (metis ready_state.distinct(1))
  have b: "before_send connecting_terminal = connecting_terminal"
    by code_simp
  show ?thesis
    using sendData_without_open_socket_is_dropped [OF g, of ascii_platform "TextData (js ''ls'')"
        example_xterm_props "js ''ls''"] k
    by (auto simp: b)
qed

subsection \<open>Reconnection\<close>

lemma conn_inv_notify: "conn_inv s \<Longrightarrow> conn_inv (notify s n)"
  by (auto simp: conn_inv_def notify_def split: option.splits if_splits)

lemma conn_inv_connect:
  assumes "conn_inv s" and "timers s = []"
  shows "conn_inv (connectWebSocket props s)"
proof (cases "isMounted s")
  case False
  then show ?thesis using assms(1) by (simp add: connectWebSocket_def)
next
  case True
  show ?thesis
  proof (cases "parseUrl props")
    case None
    then show ?thesis
      using assms(1) True by (simp add: connectWebSocket_def conn_inv_notify)
  next
    case (Some p)
    then show ?thesis
      using assms True by (cases p) (simp add: conn_inv_def connectWebSocket_def)
  qed
qed

lemma conn_inv_init: "conn_inv (xterm_init props c r)"
  unfolding xterm_init_def by (rule conn_inv_connect) (simp_all add: conn_inv_def)

lemma conn_inv_socket_send:
  assumes "conn_inv s"
  shows "conn_inv (socket_send s d)"
proof (cases "socket s")
  case None
  then show ?thesis using assms by (simp add: socket_send_def)
next
  case (Some k)
  then show ?thesis
    using assms
    by (cases "readyState k") (auto simp: socket_send_def conn_inv_def split: if_splits)
qed

lemma conn_inv_XOpen:
  assumes "conn_inv s"
  shows "conn_inv (xstep P props s XOpen)"
proof (cases "socket s")
  case None
  then show ?thesis using assms by (simp add: xstep_def)
next
  case (Some k)
  show ?thesis
  proof (cases "readyState k = CONNECTING")
    case False
    then show ?thesis using assms Some by (simp add: xstep_def)
  next
    case True
    let ?s1 = "s\<lparr>socket := Some (k\<lparr>readyState := OPEN\<rparr>)\<rparr>"
    have l: "listening k" and m: "isMounted s"
      using assms Some True by (auto simp: conn_inv_def split: if_splits)
    have c1: "conn_inv ?s1"
      using assms Some l by (auto simp: conn_inv_def split: if_splits)
    have "xstep P props s XOpen = onopen P ?s1"
      using Some True l by (simp add: xstep_def)
    moreover have "onopen P ?s1 =
        socket_send (notify ?s1 Connected)
          (handshake P (authToken k) (termCols s) (termRows s))"
      using m by (simp add: onopen_def notify_def)
    ultimately show ?thesis
      using c1 by (simp add: conn_inv_socket_send conn_inv_notify)
  qed
qed

lemma conn_inv_XClose:
  assumes "conn_inv s"
  shows "conn_inv (xstep P props s (XClose c r))"
proof (cases "socket s")
  case None
  then show ?thesis using assms by (simp add: xstep_def)
next
  case (Some k)
  show ?thesis
  proof (cases "readyState k = CLOSED")
    case True
    then show ?thesis using assms Some by (simp add: xstep_def)
  next
    case False
    show ?thesis
    proof (cases "listening k")
      case False
      then show ?thesis
        using assms Some \<open>readyState k \<noteq> CLOSED\<close> by (simp add: xstep_def conn_inv_def)
    next
      case True
      then have "isMounted s" and "timers s = []"
        using assms Some by (simp_all add: conn_inv_def)
      then show ?thesis
        using Some True \<open>readyState k \<noteq> CLOSED\<close>
        by (simp add: xstep_def onclose_def notify_def setTimeout_def conn_inv_def Let_def)
    qed
  qed
qed

lemma conn_inv_XTimer:
  assumes "conn_inv s"
  shows "conn_inv (xstep P props s (XTimer h))"
proof (cases "h \<in> fst ` set (timers s)")
  case False
  then show ?thesis using assms by (simp add: xstep_def)
next
  case True
  then have t: "timers s = [(h, 3000)]" and m: "isMounted s"
    using assms by (auto simp: conn_inv_def)
  let ?s1 = "s\<lparr>timers := clearTimeout (timers s) h\<rparr>"
  have e: "timers ?s1 = []" and m1: "isMounted ?s1"
    using t m by (simp_all add: clearTimeout_def)
  have c1: "conn_inv ?s1"
    using assms t m by (auto simp: conn_inv_def clearTimeout_def split: option.splits if_splits)
  have "xstep P props s (XTimer h) = connectWebSocket props ?s1"
    using True m by (simp add: xstep_def onReconnectTimer_def)
  then show ?thesis
    using conn_inv_connect [OF c1 e] by simp
qed

lemma conn_inv_uncaught: "conn_inv s \<Longrightarrow> conn_inv (s\<lparr>uncaught := u\<rparr>)"
  by (auto simp: conn_inv_def split: option.splits if_splits)

lemma conn_inv_sendData: "conn_inv s \<Longrightarrow> conn_inv (sendData P s d)"
  by (simp add: sendData_def conn_inv_socket_send conn_inv_uncaught
      split: send_data.splits option.splits)

lemma conn_inv_before_send: "conn_inv s \<Longrightarrow> conn_inv (before_send s)"
  by (auto simp: conn_inv_def before_send_def Let_def split: option.splits if_splits)

lemma conn_inv_onResize: "conn_inv s \<Longrightarrow> conn_inv (onResize P s c r)"
proof -
  assume a: "conn_inv s"
  have "conn_inv (s\<lparr>termCols := c, termRows := r\<rparr>)"
    using a by (auto simp: conn_inv_def split: option.splits if_splits)
  then show ?thesis
    by (simp add: onResize_def Let_def conn_inv_socket_send)
qed

lemma conn_inv_unmount:
  assumes "conn_inv s"
  shows "conn_inv (unmount s)"
proof -
  have t: "(case reconnectTimeout s of None \<Rightarrow> timers s
            | Some h \<Rightarrow> clearTimeout (timers s) h) = []"
    using assms by (cases "reconnectTimeout s") (auto simp: conn_inv_def clearTimeout_def)
  show ?thesis
  proof (cases "socket s")
    case None
    then show ?thesis
      using t by (cases "reconnectTimeout s") (simp_all add: unmount_def conn_inv_def Let_def)
  next
    case (Some k)
    then show ?thesis
      using t
      by (cases "reconnectTimeout s"; cases "readyState k")
        (simp_all add: unmount_def conn_inv_def Let_def)
  qed
qed

lemma conn_inv_step: "conn_inv s \<Longrightarrow> conn_inv (xstep P props s e)"
proof (cases e)
  case XOpen
  then show "conn_inv s \<Longrightarrow> ?thesis" by (simp add: conn_inv_XOpen)
next
  case (XClose c r)
  then show "conn_inv s \<Longrightarrow> ?thesis" by (simp add: conn_inv_XClose)
next
  case (XTimer h)
  then show "conn_inv s \<Longrightarrow> ?thesis" by (simp add: conn_inv_XTimer)
next
  case (XData d)
  then show "conn_inv s \<Longrightarrow> ?thesis"
    by (simp add: xstep_def onData_def conn_inv_sendData conn_inv_before_send)
next
  case (XBinary d)
  then show "conn_inv s \<Longrightarrow> ?thesis"
    by (simp add: xstep_def onBinary_def conn_inv_sendData conn_inv_before_send)
next
  case (XResize c r)
  then show "conn_inv s \<Longrightarrow> ?thesis"
    by (simp add: xstep_def conn_inv_onResize)
next
  case XUnmount
  then show "conn_inv s \<Longrightarrow> ?thesis"
    by (simp add: xstep_def conn_inv_unmount)
qed

lemma conn_inv_run: "conn_inv s \<Longrightarrow> conn_inv (xrun P props s es)"
  unfolding xrun_def by (induction es arbitrary: s) (simp_all add: conn_inv_step)

text \<open>
  Claim C9, as amended. While the component is mounted, that is, while the socket's
  \<open>onclose\<close> handler is still assigned: when the socket closes with a code other than
  1000, exactly one timer with the fixed delay of 3000 ms is armed, and its callback calls
  \<open>connectWebSocket\<close>; after a closure with code 1000 no timer is armed and no timer
  event changes the state.
\<close>

theorem abnormal_closure_schedules_one_reconnect:
  assumes "s = xrun P props (xterm_init props c r) es"
    and "socket s = Some k" and "listening k" and "readyState k \<noteq> CLOSED"
  shows "timers (xstep P props s (XClose closeCode reason)) =
           (if closeCode \<noteq> 1000 then [(nextTimer s, 3000)] else [])
         \<and> (if closeCode \<noteq> 1000
            then xstep P props (xstep P props s (XClose closeCode reason)) (XTimer (nextTimer s))
                 = connectWebSocket props
                     ((xstep P props s (XClose closeCode reason))\<lparr>timers := []\<rparr>)
            else \<forall>h. xstep P props (xstep P props s (XClose closeCode reason)) (XTimer h)
                     = xstep P props s (XClose closeCode reason))"
proof -
  have "conn_inv s"
    using assms(1) conn_inv_run [OF conn_inv_init] by simp
  then have m: "isMounted s" and t: "timers s = []"
    using assms(2,3) by (simp_all add: conn_inv_def)
  have x: "xstep P props s (XClose closeCode reason) =
             onclose (s\<lparr>socket := Some (k\<lparr>readyState := CLOSED\<rparr>)\<rparr>) closeCode reason"
    using assms(2-4) by (simp add: xstep_def)
  show ?thesis
    unfolding x using m t
    by (simp add: onclose_def notify_def setTimeout_def Let_def xstep_def clearTimeout_def
        onReconnectTimer_def)
qed

theorem abnormal_closure_schedules_one_reconnect_witness:
  "timers (xstep ascii_platform example_xterm_props open_terminal (XClose 1006 []))
     = [(1, 3000)]
   \<and> timers (xstep ascii_platform example_xterm_props open_terminal (XClose 1000 [])) = []"
proof -
  have o: "open_terminal = xrun ascii_platform example_xterm_props
             (xterm_init example_xterm_props 80 24) [XOpen]"
    by (simp add: open_terminal_def connecting_terminal_def)
  have k: "socket open_terminal = Some (the (socket open_terminal))"
    and l: "listening (the (socket open_terminal))"
    and r: "readyState (the (socket open_terminal)) \<noteq> CLOSED"
    and n: "nextTimer open_terminal = 1"
    by code_simp+
  show ?thesis
    using abnormal_closure_schedules_one_reconnect [OF o k l r, of 1006 "[]"]
      abnormal_closure_schedules_one_reconnect [OF o k l r, of 1000 "[]"]
    by (simp add: n)
qed

text \<open>
  The claim as stated speaks of every closure. Unmounting removes the socket's handlers
  and asks it to close; the component checks \<open>isMounted\<close> before it reconnects. When
  that socket then closes abnormally (code 1006), no reconnection is scheduled.
\<close>

theorem abnormal_closure_schedules_one_reconnect_counterexample:
  "map readyState (case socket unmounted_terminal of None \<Rightarrow> [] | Some k \<Rightarrow> [k]) = [CLOSING]
   \<and> \<not> isMounted unmounted_terminal
   \<and> timers (xstep ascii_platform example_xterm_props unmounted_terminal (XClose 1006 [])) = []
   \<and> map readyState
         (case socket (xstep ascii_platform example_xterm_props unmounted_terminal
                         (XClose 1006 [])) of
            None \<Rightarrow> [] | Some k \<Rightarrow> [k]) = [CLOSED]"
  by code_simp

subsection \<open>The handshake\<close>






















section \<open>Properties of the session lifecycle hook\<close>

text \<open>
  Claim C8. \<open>handleDisconnected\<close> arms a new timer and overwrites
  \<open>reconnectTimeoutRef\<close> without clearing the timer the ref held. Two calls in a row
  (two closures reported before the first timer fires) leave two timers armed, and
  \<open>reconnect()\<close> or \<open>disconnect()\<close> afterwards clears only the one the ref still
  holds: the first timer stays armed.
\<close>

theorem repeated_disconnect_leaves_orphan_timer:
  assumes "truthy (ttydUrlOption opts)"
  shows "pendingTimers (hook_run opts (useTerminal_init opts)
                          [HandleDisconnected, HandleDisconnected]) = [1, 2]
         \<and> pendingTimers (hook_run opts (useTerminal_init opts)
                             [HandleDisconnected, HandleDisconnected, Reconnect]) = [1]
         \<and> pendingTimers (hook_run opts (useTerminal_init opts)
                             [HandleDisconnected, HandleDisconnected, Disconnect]) = [1]"
  using assms
  by (simp add: hook_run_def hook_step_def useTerminal_init_def handleDisconnected_def
      reconnect_def disconnect_def clear_pending_def Let_def)

theorem repeated_disconnect_leaves_orphan_timer_witness:
  "truthy (ttydUrlOption example_hook_options)
   \<and> pendingTimers (hook_run example_hook_options (useTerminal_init example_hook_options)
                       [HandleDisconnected, HandleDisconnected]) = [1, 2]
   \<and> pendingTimers (hook_run example_hook_options (useTerminal_init example_hook_options)
                       [HandleDisconnected, HandleDisconnected, Reconnect]) = [1]
   \<and> pendingTimers (hook_run example_hook_options (useTerminal_init example_hook_options)
                       [HandleDisconnected, HandleDisconnected, Disconnect]) = [1]"
proof -
  have t: "truthy (ttydUrlOption example_hook_options)"
    by (simp add: example_hook_options_def truthy_def js_def)
  show ?thesis
    using repeated_disconnect_leaves_orphan_timer [OF t] t by simp
qed

end
